theory Spec2Isabelle
  imports Complex_Main "HOL-Library.AList"
begin

section \<open>Common helpers\<close>

text \<open>
  Time is a real number of seconds. The source reads two clocks, \<^verbatim>\<open>time.time()\<close> and
  \<^verbatim>\<open>datetime.now()\<close>; every operation below takes the instant \<open>now\<close> at which it runs as
  a parameter and uses it for both. ISO timestamps stored in dictionaries are kept as that
  number of seconds.
\<close>

type_synonym timestamp = real

text \<open>
  Python's \<^verbatim>\<open>str\<close> of an integer inside an f-string: \<open>decimal\<close> writes a natural number
  in base ten, \<open>str_int\<close> puts the sign in front.
\<close>

definition digit_char :: "nat \<Rightarrow> char" where
  "digit_char d = ''0123456789'' ! d"

fun decimal :: "nat \<Rightarrow> string" where
  "decimal n =
     (if 10 \<le> n then decimal (n div 10) @ [digit_char (n mod 10)] else [digit_char n])"

declare decimal.simps [simp del]

definition str_int :: "int \<Rightarrow> string" where
  "str_int i = (if 0 \<le> i then decimal (nat i) else CHR ''-'' # decimal (nat (- i)))"

text \<open>Python's \<^verbatim>\<open>int(x)\<close> on a float truncates towards zero.\<close>

definition py_int :: "real \<Rightarrow> int" where
  "py_int x = (if x < 0 then \<lceil>x\<rceil> else \<lfloor>x\<rfloor>)"

text \<open>The format \<^verbatim>\<open>{n:04d}\<close> for a non-negative \<open>n\<close>.\<close>

definition pad4 :: "nat \<Rightarrow> string" where
  "pad4 n = replicate (4 - length (decimal n)) CHR ''0'' @ decimal n"

text \<open>The exceptions of the source that escape the function that raises them.\<close>

datatype py_error = NameError | TypeError | ValueError

section \<open>self\_preservation.py: the component registry and the health monitor\<close>

subsection \<open>Data\<close>

text \<open>One value of the dictionary \<^verbatim>\<open>component_states\<close>.\<close>

record component =
  c_state :: string
  c_last_heartbeat :: timestamp
  c_error_count :: int
  c_recovery_count :: int
  c_last_error :: "timestamp option"

text \<open>The argument of \<^verbatim>\<open>report_error\<close>: a dictionary, any key of which may be absent.\<close>

record error_report =
  r_component :: "string option"
  r_error_type :: "string option"
  r_description :: "string option"
  r_severity :: "string option"
  r_requires_immediate_recovery :: "bool option"
  r_recovery_type :: "string option"

text \<open>
  The entries of \<^verbatim>\<open>error_log\<close> are dictionaries of four shapes: the record of a component
  entering the error state, a reported error (the caller's dictionary with a timestamp and
  an id added), a failure caught inside this class (no \<^verbatim>\<open>timestamp\<close> key), and a state-change
  event.
\<close>

datatype log_entry =
    ComponentError string string timestamp
  | Reported error_report timestamp string
  | InternalFailure string string
  | StateChange string string timestamp

fun entry_timestamp :: "log_entry \<Rightarrow> timestamp option" where
  "entry_timestamp (ComponentError c p t) = Some t"
| "entry_timestamp (Reported r t i) = Some t"
| "entry_timestamp (InternalFailure ty d) = None"
| "entry_timestamp (StateChange old new t) = Some t"

record recovery_counters =
  total_recoveries :: int
  failed_recoveries :: int
  strategy_usage :: "(string \<times> int) list"

text \<open>
  The fields of \<^verbatim>\<open>SelfPreservation\<close> that the operations read or write. Dictionaries are
  association lists in insertion order (\<open>map_of\<close> looks up, \<open>AList.update\<close> assigns in place
  or appends, as a Python dict does).
\<close>

record self_preservation =
  system_state :: string
  error_log :: "log_entry list"
  monitoring_active :: bool
  last_state_save :: timestamp
  recovery_counters :: recovery_counters
  component_states :: "(string \<times> component) list"
  shutdown_requested :: bool

definition errors_per_minute :: int where
  "errors_per_minute = 5"

definition consecutive_failures :: int where
  "consecutive_failures = 3"

definition recovery_strategies :: "string list" where
  "recovery_strategies =
     [''memory_overflow'', ''process_hang'', ''data_corruption'', ''component_failure'',
      ''resource_exhaustion'']"

definition initial_counters :: recovery_counters where
  "initial_counters = \<lparr>total_recoveries = 0, failed_recoveries = 0, strategy_usage = []\<rparr>"

text \<open>The state that \<^verbatim>\<open>__init__\<close> builds.\<close>

definition init_preservation :: "timestamp \<Rightarrow> self_preservation" where
  "init_preservation now =
     \<lparr>system_state = ''initializing'', error_log = [], monitoring_active = False,
      last_state_save = now, recovery_counters = initial_counters, component_states = [],
      shutdown_requested = False\<rparr>"

subsection \<open>Registry operations\<close>

definition update_system_state :: "self_preservation \<Rightarrow> string \<Rightarrow> timestamp \<Rightarrow> self_preservation" where
  "update_system_state sp new_state now =
     (let old_state = system_state sp;
          sp1 = sp\<lparr>system_state := new_state\<rparr>
      in if old_state \<noteq> new_state
         then sp1\<lparr>error_log := error_log sp1 @ [StateChange old_state new_state now]\<rparr>
         else sp1)"

definition start_monitoring :: "self_preservation \<Rightarrow> bool \<times> self_preservation" where
  "start_monitoring sp =
     (if monitoring_active sp then (False, sp)
      else (True, sp\<lparr>monitoring_active := True, system_state := ''stable''\<rparr>))"

definition stop_monitoring :: "self_preservation \<Rightarrow> bool \<times> self_preservation" where
  "stop_monitoring sp =
     (if \<not> monitoring_active sp then (False, sp)
      else (True, sp\<lparr>monitoring_active := False\<rparr>))"

definition register_component ::
  "self_preservation \<Rightarrow> string \<Rightarrow> string \<Rightarrow> timestamp \<Rightarrow> self_preservation" where
  "register_component sp component_name initial_state now =
     sp\<lparr>component_states :=
          AList.update component_name
            \<lparr>c_state = initial_state, c_last_heartbeat = now, c_error_count = 0,
             c_recovery_count = 0, c_last_error = None\<rparr>
            (component_states sp)\<rparr>"

definition critical_components :: "string list" where
  "critical_components = [''safety_filter'', ''main_assistant'']"

definition update_component_state ::
  "self_preservation \<Rightarrow> string \<Rightarrow> string \<Rightarrow> timestamp \<Rightarrow> bool \<times> self_preservation" where
  "update_component_state sp component_name state now =
     (case map_of (component_states sp) component_name of
        None \<Rightarrow> (False, sp)
      | Some c \<Rightarrow>
          let previous_state = c_state c;
              c1 = c\<lparr>c_state := state, c_last_heartbeat := now\<rparr>;
              sp1 = sp\<lparr>component_states := AList.update component_name c1 (component_states sp)\<rparr>
          in if previous_state \<noteq> state
             then
               (if state = ''error'' \<and> previous_state \<noteq> ''error''
                then
                  let c2 = c1\<lparr>c_error_count := c_error_count c1 + 1, c_last_error := Some now\<rparr>;
                      sp2 = sp1\<lparr>component_states :=
                                  AList.update component_name c2 (component_states sp1),
                                error_log :=
                                  error_log sp1 @ [ComponentError component_name previous_state now]\<rparr>
                  in if component_name \<in> set critical_components
                     then (True, update_system_state sp2 ''degraded'' now)
                     else (True, sp2)
                else (True, sp1))
             else (True, sp1))"

definition component_heartbeat ::
  "self_preservation \<Rightarrow> string \<Rightarrow> timestamp \<Rightarrow> bool \<times> self_preservation" where
  "component_heartbeat sp component_name now =
     (case map_of (component_states sp) component_name of
        None \<Rightarrow> (False, sp)
      | Some c \<Rightarrow>
          (True, sp\<lparr>component_states :=
                      AList.update component_name (c\<lparr>c_last_heartbeat := now\<rparr>)
                        (component_states sp)\<rparr>))"

subsection \<open>Recovery\<close>

record recovery_result =
  rr_recovery_type :: string
  rr_success :: bool
  rr_message :: "string option"
  rr_actions_taken :: "string list"

text \<open>
  The five strategy functions. Each one sets \<^verbatim>\<open>success = True\<close> and reports fixed actions;
  only \<^verbatim>\<open>_recover_component_failure\<close> writes to the registry. The argument \<open>component\<close> is
  \<^verbatim>\<open>context.get("component", "unknown")\<close>.
\<close>

definition recover_component_failure ::
  "self_preservation \<Rightarrow> string \<Rightarrow> timestamp \<Rightarrow> recovery_result \<times> self_preservation" where
  "recover_component_failure sp component now =
     (let sp1 = (case map_of (component_states sp) component of
                   None \<Rightarrow> sp
                 | Some c \<Rightarrow>
                     sp\<lparr>component_states :=
                          AList.update component
                            (c\<lparr>c_state := ''restarting'', c_last_heartbeat := now\<rparr>)
                            (component_states sp)\<rparr>);
          success = True;
          sp2 = (case map_of (component_states sp1) component of
                   None \<Rightarrow> sp1
                 | Some c \<Rightarrow>
                     if success
                     then sp1\<lparr>component_states :=
                               AList.update component
                                 (c\<lparr>c_state := ''active'',
                                    c_recovery_count := c_recovery_count c + 1\<rparr>)
                                 (component_states sp1)\<rparr>
                     else sp1)
      in (\<lparr>rr_recovery_type = ''component_failure'', rr_success = success, rr_message = None,
           rr_actions_taken = [''restart_component'', ''verify_functionality'']\<rparr>, sp2))"

definition run_strategy ::
  "self_preservation \<Rightarrow> string \<Rightarrow> string \<Rightarrow> timestamp \<Rightarrow> recovery_result \<times> self_preservation" where
  "run_strategy sp recovery_type component now =
     (if recovery_type = ''memory_overflow''
      then (\<lparr>rr_recovery_type = ''memory_overflow'', rr_success = True, rr_message = None,
             rr_actions_taken = [''clear_caches'', ''force_garbage_collection'']\<rparr>, sp)
      else if recovery_type = ''process_hang''
      then (\<lparr>rr_recovery_type = ''process_hang'', rr_success = True, rr_message = None,
             rr_actions_taken = [''timeout_reset'', ''process_restart'']\<rparr>, sp)
      else if recovery_type = ''data_corruption''
      then (\<lparr>rr_recovery_type = ''data_corruption'', rr_success = True, rr_message = None,
             rr_actions_taken = [''restore_from_backup'', ''validate_data_integrity'']\<rparr>, sp)
      else if recovery_type = ''component_failure''
      then recover_component_failure sp component now
      else (\<lparr>rr_recovery_type = ''resource_exhaustion'', rr_success = True, rr_message = None,
             rr_actions_taken = [''release_unused_resources'', ''prioritize_essential_tasks'']\<rparr>,
            sp))"

definition bump_usage :: "string \<Rightarrow> (string \<times> int) list \<Rightarrow> (string \<times> int) list" where
  "bump_usage recovery_type usage =
     (case map_of usage recovery_type of
        None \<Rightarrow> AList.update recovery_type 1 usage
      | Some n \<Rightarrow> AList.update recovery_type (n + 1) usage)"

definition attempt_recovery ::
  "self_preservation \<Rightarrow> string \<Rightarrow> string \<Rightarrow> timestamp \<Rightarrow> recovery_result \<times> self_preservation" where
  "attempt_recovery sp recovery_type component now =
     (let rc = recovery_counters sp;
          rc1 = rc\<lparr>total_recoveries := total_recoveries rc + 1,
                   strategy_usage := bump_usage recovery_type (strategy_usage rc)\<rparr>;
          sp1 = sp\<lparr>recovery_counters := rc1\<rparr>
      in if recovery_type \<in> set recovery_strategies
         then
           (let (result, sp2) = run_strategy sp1 recovery_type component now
            in if rr_success result then (result, sp2)
               else (result,
                     sp2\<lparr>recovery_counters :=
                           (recovery_counters sp2)
                             \<lparr>failed_recoveries := failed_recoveries (recovery_counters sp2) + 1\<rparr>\<rparr>))
         else
           (\<lparr>rr_recovery_type = recovery_type, rr_success = False,
             rr_message = Some ''Unknown recovery strategy'', rr_actions_taken = []\<rparr>,
            sp1\<lparr>recovery_counters := rc1\<lparr>failed_recoveries := failed_recoveries rc1 + 1\<rparr>\<rparr>))"

subsection \<open>Reporting errors\<close>

text \<open>
  \<^verbatim>\<open>hash(error_data['description'])\<close> is Python's per-process string hash; it is the
  parameter \<open>hash\<close>, and \<^verbatim>\<open>% 10000\<close> makes it a number below 10000. The function writes the
  timestamp and the id into the caller's dictionary and appends that dictionary to the log;
  the model takes the dictionary of each call to be a new one (a dictionary reported a
  second time would have its logged timestamp and id rewritten).
\<close>

definition report_error ::
  "self_preservation \<Rightarrow> error_report \<Rightarrow> timestamp \<Rightarrow> (string \<Rightarrow> int) \<Rightarrow> string \<times> self_preservation" where
  "report_error sp error_data now hash =
     (case (r_component error_data, r_error_type error_data, r_description error_data) of
        (Some component, Some error_type, Some description) \<Rightarrow>
          let error_id = ''err_'' @ str_int (py_int now) @ ''_''
                           @ pad4 (nat (hash description mod 10000));
              sp1 = sp\<lparr>error_log := error_log sp @ [Reported error_data now error_id]\<rparr>;
              severity = (case r_severity error_data of None \<Rightarrow> ''warning'' | Some s \<Rightarrow> s)
          in if severity = ''critical''
             then
               let sp2 = update_system_state sp1 ''degraded'' now
               in if r_requires_immediate_recovery error_data = Some True
                  then (case r_recovery_type error_data of
                          None \<Rightarrow> (error_id, sp2)
                        | Some recovery_type \<Rightarrow>
                            if recovery_type \<in> set recovery_strategies
                            then (error_id, snd (attempt_recovery sp2 recovery_type component now))
                            else (error_id, sp2))
                  else (error_id, sp2)
             else if severity = ''warning''
             then (case map_of (component_states sp1) component of
                     None \<Rightarrow> (error_id, sp1)
                   | Some c \<Rightarrow>
                       if c_error_count c \<ge> consecutive_failures
                       then (error_id, update_system_state sp1 ''degraded'' now)
                       else (error_id, sp1))
             else (error_id, sp1)
      | _ \<Rightarrow> ('''', sp))"

subsection \<open>Saving and restoring the state\<close>

text \<open>
  The JSON object that \<^verbatim>\<open>save_system_state\<close> writes. On reading, any key may be absent,
  so every field is optional.
\<close>

record state_data =
  a_timestamp :: "timestamp option"
  a_system_state :: "string option"
  a_component_states :: "(string \<times> component) list option"
  a_recovery_counters :: "recovery_counters option"
  a_error_count :: "int option"

definition snapshot_of :: "self_preservation \<Rightarrow> timestamp \<Rightarrow> state_data" where
  "snapshot_of sp now =
     \<lparr>a_timestamp = Some now, a_system_state = Some (system_state sp),
      a_component_states = Some (component_states sp),
      a_recovery_counters = Some (recovery_counters sp),
      a_error_count = Some (int (length (error_log sp)))\<rparr>"

datatype io_result = IoSuccess string "timestamp option" | IoError string

fun io_status :: "io_result \<Rightarrow> string" where
  "io_status (IoSuccess f t) = ''success''"
| "io_status (IoError m) = ''error''"

text \<open>
  The file system is outside the state: \<open>filename\<close> is the name built from the clock, and
  \<open>write_error\<close> is \<open>None\<close> when \<^verbatim>\<open>open\<close> and \<^verbatim>\<open>json.dump\<close> succeed and the text of the
  exception otherwise. The object written is \<open>snapshot_of sp now\<close>.
\<close>

definition save_system_state ::
  "self_preservation \<Rightarrow> timestamp \<Rightarrow> string \<Rightarrow> string option \<Rightarrow> io_result \<times> self_preservation" where
  "save_system_state sp now filename write_error =
     (case write_error of
        None \<Rightarrow> (IoSuccess filename (a_timestamp (snapshot_of sp now)), sp\<lparr>last_state_save := now\<rparr>)
      | Some e \<Rightarrow>
          (IoError e,
           sp\<lparr>error_log :=
                error_log sp @
                  [InternalFailure ''state_save_failure'' (''Failed to save system state: '' @ e)]\<rparr>))"

text \<open>
  What reading a backup file gives: the text of the exception when \<^verbatim>\<open>open\<close> or
  \<^verbatim>\<open>json.load\<close> raises, a JSON value that is not an object (on which \<^verbatim>\<open>.get\<close> raises
  AttributeError), or a JSON object.
\<close>

datatype file_content = Unreadable string | NotAnObject string | JsonObject state_data

text \<open>
  \<open>backup_files\<close> is the result of \<^verbatim>\<open>_get_backup_files()\<close>, newest first; \<open>read_file\<close> is the
  file system. \<^verbatim>\<open>if not filename\<close> holds for \<^verbatim>\<open>None\<close> and for the empty string, and
  \<open>chosen_backup\<close> is the file name that the first block of the function settles on.
\<close>

definition chosen_backup :: "string option \<Rightarrow> string list \<Rightarrow> string option" where
  "chosen_backup filename backup_files =
     (if filename = None \<or> filename = Some []
      then (case backup_files of [] \<Rightarrow> None | f # fs \<Rightarrow> Some f)
      else filename)"

definition restore_system_state ::
  "self_preservation \<Rightarrow> string option \<Rightarrow> string list \<Rightarrow> (string \<Rightarrow> file_content)
     \<Rightarrow> io_result \<times> self_preservation" where
  "restore_system_state sp filename backup_files read_file =
     (case chosen_backup filename backup_files of
        None \<Rightarrow> (IoError ''No backup files found'', sp)
      | Some f \<Rightarrow>
          (case read_file f of
             JsonObject d \<Rightarrow>
               let sp1 = sp\<lparr>system_state :=
                              (case a_system_state d of None \<Rightarrow> ''stable'' | Some s \<Rightarrow> s)\<rparr>;
                   sp2 = sp1\<lparr>component_states :=
                               (case a_component_states d of None \<Rightarrow> [] | Some cs \<Rightarrow> cs)\<rparr>;
                   sp3 = sp2\<lparr>recovery_counters :=
                               (case a_recovery_counters d of
                                  None \<Rightarrow> initial_counters | Some rc \<Rightarrow> rc)\<rparr>
               in (IoSuccess f (a_timestamp d), sp3)
           | NotAnObject e \<Rightarrow>
               (IoError e,
                sp\<lparr>error_log :=
                     error_log sp @
                       [InternalFailure ''state_restore_failure''
                          (''Failed to restore system state: '' @ e)]\<rparr>)
           | Unreadable e \<Rightarrow>
               (IoError e,
                sp\<lparr>error_log :=
                     error_log sp @
                       [InternalFailure ''state_restore_failure''
                          (''Failed to restore system state: '' @ e)]\<rparr>)))"

record shutdown_result =
  sd_status :: string
  sd_timestamp :: timestamp
  sd_reason :: string
  sd_state_saved :: bool

definition safe_shutdown ::
  "self_preservation \<Rightarrow> string \<Rightarrow> timestamp \<Rightarrow> string \<Rightarrow> string option
     \<Rightarrow> shutdown_result \<times> self_preservation" where
  "safe_shutdown sp reason now filename write_error =
     (let sp1 = sp\<lparr>shutdown_requested := True\<rparr>;
          (save_result, sp2) = save_system_state sp1 now filename write_error;
          sp3 = (if monitoring_active sp2 then snd (stop_monitoring sp2) else sp2);
          sp4 = update_system_state sp3 ''shutting_down'' now
      in (\<lparr>sd_status = ''success'', sd_timestamp = now, sd_reason = reason,
           sd_state_saved = (io_status save_result = ''success'')\<rparr>, sp4))"

subsection \<open>Health monitoring\<close>

record component_status =
  cs_state :: string
  cs_heartbeat :: string
  cs_error_count :: int
  cs_last_error_age :: "real option"

record health_status =
  h_timestamp :: timestamp
  h_system_state :: string
  h_status :: string
  h_health_score :: int
  h_components :: "(string \<times> component_status) list"
  h_resources :: "(string \<times> real) list"
  h_recent_errors :: int
  h_inactive_components :: "string list"
  h_error_components :: "string list"

definition heartbeat_status :: "real \<Rightarrow> string" where
  "heartbeat_status heartbeat_age =
     (if heartbeat_age < 60 then ''ok'' else if heartbeat_age < 180 then ''late'' else ''missing'')"

text \<open>
  The loop over \<^verbatim>\<open>component_states.items()\<close>: it carries the three collections that the
  body extends.
\<close>

fun check_components ::
  "timestamp \<Rightarrow> (string \<times> component) list
     \<Rightarrow> (string \<times> component_status) list \<times> string list \<times> string list
     \<Rightarrow> (string \<times> component_status) list \<times> string list \<times> string list" where
  "check_components current_time [] acc = acc"
| "check_components current_time ((component, state) # rest)
     (component_status, inactive_components, error_components) =
     (let heartbeat_age = current_time - c_last_heartbeat state;
          hb = heartbeat_status heartbeat_age;
          component_status1 =
            AList.update component
              \<lparr>cs_state = c_state state, cs_heartbeat = hb, cs_error_count = c_error_count state,
               cs_last_error_age =
                 (case c_last_error state of None \<Rightarrow> None | Some t \<Rightarrow> Some (current_time - t))\<rparr>
              component_status;
          inactive_components1 =
            (if hb = ''missing'' \<or> c_state state = ''inactive''
             then inactive_components @ [component] else inactive_components);
          error_components1 =
            (if c_state state = ''error''
             then error_components @ [component] else error_components)
      in check_components current_time rest
           (component_status1, inactive_components1, error_components1))"

text \<open>The loop over \<^verbatim>\<open>error_log\<close> that counts the entries less than a minute old.\<close>

fun count_recent_errors :: "timestamp \<Rightarrow> log_entry list \<Rightarrow> int \<Rightarrow> int" where
  "count_recent_errors now [] recent_errors = recent_errors"
| "count_recent_errors now (error # rest) recent_errors =
     (case entry_timestamp error of
        None \<Rightarrow> count_recent_errors now rest recent_errors
      | Some error_time \<Rightarrow>
          let age_seconds = now - error_time
          in if age_seconds < 60 then count_recent_errors now rest (recent_errors + 1)
             else count_recent_errors now rest recent_errors)"

definition monitor_system_health ::
  "self_preservation \<Rightarrow> timestamp \<Rightarrow> health_status \<times> self_preservation" where
  "monitor_system_health sp now =
     (let (component_status, inactive_components, error_components) =
            check_components now (component_states sp) ([], [], []);
          recent_errors = count_recent_errors now (error_log sp) 0;
          system_status0 = ''healthy'';
          system_status1 = (if error_components \<noteq> [] then ''degraded'' else system_status0);
          system_status =
            (if int (length error_components) > 1 \<or> recent_errors > errors_per_minute
             then ''critical'' else system_status1);
          resource_status = [(''memory_usage'', 0.5), (''cpu_usage'', 0.3), (''disk_usage'', 0.4)];
          health_score0 = 100;
          health_score1 = health_score0 - int (length inactive_components) * 15;
          health_score2 = health_score1 - int (length error_components) * 20;
          health_score3 = health_score2 - recent_errors * 5;
          health_score = max 0 (min 100 health_score3);
          health =
            \<lparr>h_timestamp = now, h_system_state = system_state sp, h_status = system_status,
             h_health_score = health_score, h_components = component_status,
             h_resources = resource_status, h_recent_errors = recent_errors,
             h_inactive_components = inactive_components,
             h_error_components = error_components\<rparr>;
          sp1 =
            (if system_state sp \<noteq> ''shutting_down''
             then
               (if system_status = ''critical'' \<and> system_state sp \<noteq> ''critical''
                then update_system_state sp ''critical'' now
                else if system_status = ''degraded'' \<and> system_state sp = ''stable''
                then update_system_state sp ''degraded'' now
                else if system_status = ''healthy'' \<and> system_state sp \<noteq> ''stable''
                then update_system_state sp ''stable'' now
                else sp)
             else sp)
      in (health, sp1))"

subsection \<open>The health score as the specification words it\<close>

text \<open>
  A component is inactive when its heartbeat is at least 180 seconds old or its state is
  \<open>inactive\<close>; it is in error when its state is \<open>error\<close>; a log entry is recent when it has
  a timestamp less than 60 seconds old.
\<close>

definition spec_inactive :: "timestamp \<Rightarrow> component \<Rightarrow> bool" where
  "spec_inactive now c = (now - c_last_heartbeat c \<ge> 180 \<or> c_state c = ''inactive'')"

definition spec_in_error :: "component \<Rightarrow> bool" where
  "spec_in_error c = (c_state c = ''error'')"

definition spec_recent :: "timestamp \<Rightarrow> log_entry \<Rightarrow> bool" where
  "spec_recent now e = (case entry_timestamp e of None \<Rightarrow> False | Some t \<Rightarrow> now - t < 60)"

definition spec_health_score :: "self_preservation \<Rightarrow> timestamp \<Rightarrow> int" where
  "spec_health_score sp now =
     max 0 (min 100
       (100 - 15 * int (length (filter (\<lambda>(n, c). spec_inactive now c) (component_states sp)))
            - 20 * int (length (filter (\<lambda>(n, c). spec_in_error c) (component_states sp)))
            - 5 * int (length (filter (spec_recent now) (error_log sp)))))"

subsection \<open>Scenarios over the registry\<close>

text \<open>
  Components \<open>a\<close> and \<open>b\<close> are registered on a state \<open>sp0\<close>, then \<open>a\<close> is put into the
  error state.
\<close>

definition error_scenario ::
  "self_preservation \<Rightarrow> string \<Rightarrow> string \<Rightarrow> timestamp \<Rightarrow> timestamp \<Rightarrow> timestamp \<Rightarrow> self_preservation" where
  "error_scenario sp0 a b t1 t2 t3 =
     snd (update_component_state
            (register_component (register_component sp0 a ''active'' t1) b ''active'' t2)
            a ''error'' t3)"

text \<open>
  A session that registers the safety filter, starts monitoring and shuts down at time 10,
  the state file being written without error.
\<close>

definition shut_down :: self_preservation where
  "shut_down =
     snd (safe_shutdown
            (snd (start_monitoring
                    (register_component (init_preservation 0) ''safety_filter'' ''active'' 0)))
            ''manual'' 10 ''backups/system_state_19700101_000010.json'' None)"

definition critical_report :: error_report where
  "critical_report =
     \<lparr>r_component = Some ''knowledge_base'', r_error_type = Some ''io'',
      r_description = Some ''disk full'', r_severity = Some ''critical'',
      r_requires_immediate_recovery = None, r_recovery_type = None\<rparr>"

text \<open>A registry with one component and one logged error, and a backup of another state.\<close>

definition running_state :: self_preservation where
  "running_state =
     snd (update_component_state
            (register_component (init_preservation 0) ''knowledge_base'' ''active'' 0)
            ''knowledge_base'' ''error'' 5)"

definition stored_backup :: state_data where
  "stored_backup =
     snapshot_of (register_component (init_preservation 0) ''safety_filter'' ''active'' 1) 2"

section \<open>goal\_system.py: the goal store\<close>

subsection \<open>Data\<close>

record subtask =
  st_id :: string
  st_description :: string
  st_status :: string
  st_completed :: bool
  st_completed_at :: "timestamp option"

text \<open>
  A goal dictionary. The keys \<^verbatim>\<open>completed_at\<close> and \<^verbatim>\<open>updated_at\<close> are absent until
  \<^verbatim>\<open>update_progress\<close> writes them. The progress is a number that callers give as an integer
  or a float; it is a real here.
\<close>

record goal =
  g_id :: string
  g_description :: string
  g_type :: string
  g_priority :: int
  g_status :: string
  g_progress :: real
  g_created_at :: timestamp
  g_deadline :: "string option"
  g_subtasks :: "subtask list"
  g_dependencies :: "string list"
  g_review_count :: int
  g_last_reviewed :: "timestamp option"
  g_completed_at :: "timestamp option"
  g_updated_at :: "timestamp option"

text \<open>
  The fields of \<^verbatim>\<open>GoalSystem\<close>: the two lists, the time of the next review and the two
  configuration values that the operations read (\<^verbatim>\<open>min_active_goals\<close>, default 3, and
  \<^verbatim>\<open>review_interval_hours\<close>, default 1). \<^verbatim>\<open>_save_data\<close> writes a file and catches every
  exception; it does not change these fields and is left out.
\<close>

record goal_system =
  goals :: "goal list"
  completed_goals :: "goal list"
  next_review_time :: timestamp
  min_active_goals :: int
  review_interval_hours :: real

definition goal_types :: "string list" where
  "goal_types =
     [''knowledge_acquisition'', ''skill_development'', ''problem_solving'', ''creation'',
      ''optimization'', ''maintenance'', ''exploration'', ''assistance'']"

text \<open>The store that \<^verbatim>\<open>__init__\<close> builds with the default configuration and no data file.\<close>

definition init_goal_system :: "timestamp \<Rightarrow> goal_system" where
  "init_goal_system now =
     \<lparr>goals = [], completed_goals = [], next_review_time = now + 1 * 3600,
      min_active_goals = 3, review_interval_hours = 1\<rparr>"

subsection \<open>Creating and finding goals\<close>

text \<open>The id that \<^verbatim>\<open>set_goal\<close> builds from the clock and the number of active goals.\<close>

definition new_goal_id :: "goal_system \<Rightarrow> timestamp \<Rightarrow> string" where
  "new_goal_id st now =
     ''goal_'' @ str_int (py_int now) @ ''_'' @ decimal (length (goals st))"

definition set_goal ::
  "goal_system \<Rightarrow> string \<Rightarrow> string \<Rightarrow> int \<Rightarrow> string option \<Rightarrow> timestamp
     \<Rightarrow> (string + goal) \<times> goal_system" where
  "set_goal st description goal_type priority deadline now =
     (if description = [] then (Inl ''Goal description cannot be empty'', st)
      else
        let goal_type1 =
              (if goal_type \<notin> set goal_types then ''knowledge_acquisition'' else goal_type);
            priority1 = max 1 (min 5 priority);
            goal_id = new_goal_id st now;
            goal = \<lparr>g_id = goal_id, g_description = description, g_type = goal_type1,
                    g_priority = priority1, g_status = ''active'', g_progress = 0,
                    g_created_at = now, g_deadline = deadline, g_subtasks = [],
                    g_dependencies = [], g_review_count = 0, g_last_reviewed = None,
                    g_completed_at = None, g_updated_at = None\<rparr>
        in (Inr goal, st\<lparr>goals := goals st @ [goal]\<rparr>))"

definition get_goal :: "goal_system \<Rightarrow> string \<Rightarrow> goal option" where
  "get_goal st goal_id =
     (case find (\<lambda>g. g_id g = goal_id) (goals st) of
        Some goal \<Rightarrow> Some goal
      | None \<Rightarrow> find (\<lambda>g. g_id g = goal_id) (completed_goals st))"

text \<open>
  \<^verbatim>\<open>get_goal\<close> returns the dictionary itself, and the callers write to it. \<open>modify_goal\<close> is
  that write: it changes the element that \<open>get_goal\<close> finds, where it stands.
\<close>

fun update_first :: "('a \<Rightarrow> bool) \<Rightarrow> ('a \<Rightarrow> 'a) \<Rightarrow> 'a list \<Rightarrow> 'a list" where
  "update_first P f [] = []"
| "update_first P f (x # xs) = (if P x then f x # xs else x # update_first P f xs)"

definition modify_goal :: "goal_system \<Rightarrow> string \<Rightarrow> (goal \<Rightarrow> goal) \<Rightarrow> goal_system" where
  "modify_goal st goal_id f =
     (case find (\<lambda>g. g_id g = goal_id) (goals st) of
        Some goal \<Rightarrow> st\<lparr>goals := update_first (\<lambda>g. g_id g = goal_id) f (goals st)\<rparr>
      | None \<Rightarrow>
          st\<lparr>completed_goals := update_first (\<lambda>g. g_id g = goal_id) f (completed_goals st)\<rparr>)"

subsection \<open>Decomposition\<close>

text \<open>
  The subtask descriptions of the source are Japanese sentences around the goal's
  description; they are given here by an English rendering of each sentence.
\<close>

definition subtask_phrases :: "string \<Rightarrow> string list" where
  "subtask_phrases goal_type =
     (if goal_type = ''knowledge_acquisition''
      then [''research basic information'', ''understand the main concepts'',
            ''check related examples'', ''update the knowledge base'']
      else if goal_type = ''skill_development''
      then [''acquire the basic knowledge needed'', ''learn the basic procedure'',
            ''practise'', ''evaluate and improve'']
      else if goal_type = ''problem_solving''
      then [''analyse the problem in detail'', ''consider several solutions'',
            ''select the best solution'', ''execute and verify the solution'']
      else if goal_type = ''creation''
      then [''define the requirements'', ''design'', ''implement or create'',
            ''test and improve'']
      else if goal_type = ''optimization''
      then [''analyse the current state'', ''identify the improvements'',
            ''carry out the optimization'', ''measure the effect'']
      else [''research'', ''plan'', ''execute'', ''evaluate''])"

definition make_subtasks :: "string \<Rightarrow> string \<Rightarrow> string \<Rightarrow> subtask list" where
  "make_subtasks goal_id goal_type description =
     map (\<lambda>(k, phrase).
            \<lparr>st_id = goal_id @ ''_sub'' @ decimal k,
             st_description = ''['' @ description @ ''] '' @ phrase,
             st_status = ''pending'', st_completed = False, st_completed_at = None\<rparr>)
         (zip [1, 2, 3, 4] (subtask_phrases goal_type))"

definition decompose_goal :: "goal_system \<Rightarrow> string \<Rightarrow> subtask list \<times> goal_system" where
  "decompose_goal st goal_id =
     (case get_goal st goal_id of
        None \<Rightarrow> ([], st)
      | Some goal \<Rightarrow>
          if g_subtasks goal \<noteq> [] then (g_subtasks goal, st)
          else
            let subtasks = make_subtasks goal_id (g_type goal) (g_description goal)
            in (subtasks, modify_goal st goal_id (\<lambda>g. g\<lparr>g_subtasks := subtasks\<rparr>)))"

subsection \<open>Progress\<close>

datatype update_result = UpdateError string | UpdateSuccess string real real bool

fun new_progress :: "update_result \<Rightarrow> real option" where
  "new_progress (UpdateError m) = None"
| "new_progress (UpdateSuccess goal_id old new completed) = Some new"

definition mark_subtask :: "string \<Rightarrow> timestamp \<Rightarrow> subtask list \<Rightarrow> subtask list" where
  "mark_subtask subtask_id now subtasks =
     map (\<lambda>subtask.
            if st_id subtask = subtask_id \<and> \<not> st_completed subtask
            then subtask\<lparr>st_status := ''completed'', st_completed := True,
                         st_completed_at := Some now\<rparr>
            else subtask)
         subtasks"

definition mark_subtasks :: "string list \<Rightarrow> timestamp \<Rightarrow> subtask list \<Rightarrow> subtask list" where
  "mark_subtasks completed_subtasks now subtasks =
     foldl (\<lambda>sts subtask_id. mark_subtask subtask_id now sts) subtasks completed_subtasks"

definition calculated_progress :: "subtask list \<Rightarrow> real" where
  "calculated_progress subtasks =
     (let completed_count = length (filter st_completed subtasks);
          total_count = length subtasks
      in if total_count > 0 then (real completed_count / real total_count) * 100 else 0)"

text \<open>
  The middle of \<^verbatim>\<open>update_progress\<close>: the reported progress is clamped and stored, the
  listed subtasks are marked, and the progress becomes the larger of the stored value and
  the share of completed subtasks.
\<close>

definition recompute_progress :: "goal \<Rightarrow> real \<Rightarrow> string list \<Rightarrow> timestamp \<Rightarrow> goal" where
  "recompute_progress goal progress completed_subtasks now =
     (let goal1 = goal\<lparr>g_progress := max 0 (min 100 progress)\<rparr>;
          goal2 = goal1\<lparr>g_subtasks :=
                          mark_subtasks completed_subtasks now (g_subtasks goal1)\<rparr>
      in if g_subtasks goal2 \<noteq> []
         then goal2\<lparr>g_progress :=
                      max (g_progress goal2) (calculated_progress (g_subtasks goal2))\<rparr>
         else goal2)"

text \<open>
  \<^verbatim>\<open>self.goals.remove(goal)\<close> raises ValueError when no element of the active list equals
  the goal; that is the case when \<open>get_goal\<close> found the goal in the completed list.
\<close>

definition update_progress ::
  "goal_system \<Rightarrow> string \<Rightarrow> real \<Rightarrow> string list \<Rightarrow> timestamp
     \<Rightarrow> (py_error + update_result) \<times> goal_system" where
  "update_progress st goal_id progress completed_subtasks now =
     (case get_goal st goal_id of
        None \<Rightarrow> (Inr (UpdateError ''Goal not found''), st)
      | Some goal \<Rightarrow>
          if g_status goal = ''completed''
          then (Inr (UpdateError ''Goal already completed''), st)
          else
            let old_progress = g_progress goal;
                goal3 = recompute_progress goal progress completed_subtasks now
            in if g_progress goal3 \<ge> 100
               then
                 let goal4 = goal3\<lparr>g_status := ''completed'', g_completed_at := Some now\<rparr>;
                     st1 = modify_goal st goal_id (\<lambda>g. goal4)
                 in if goal4 \<in> set (goals st1)
                    then
                      let st2 = st1\<lparr>goals := remove1 goal4 (goals st1)\<rparr>;
                          st3 = st2\<lparr>completed_goals := completed_goals st2 @ [goal4]\<rparr>;
                          goal5 = goal4\<lparr>g_updated_at := Some now\<rparr>;
                          st4 = st3\<lparr>completed_goals := butlast (completed_goals st3) @ [goal5]\<rparr>
                      in (Inr (UpdateSuccess goal_id old_progress (g_progress goal5)
                                 (g_status goal5 = ''completed'')), st4)
                    else (Inl ValueError, st1)
               else
                 let goal4 = goal3\<lparr>g_updated_at := Some now\<rparr>
                 in (Inr (UpdateSuccess goal_id old_progress (g_progress goal4)
                            (g_status goal4 = ''completed'')),
                     modify_goal st goal_id (\<lambda>g. goal4)))"

text \<open>
  The stored progress as the specification words it: the larger of the report, clamped to
  the range from 0 to 100, and the share of the subtasks that are completed once the listed
  ones are marked; the report alone for a goal without subtasks.
\<close>

definition spec_progress :: "goal \<Rightarrow> real \<Rightarrow> string list \<Rightarrow> real" where
  "spec_progress goal progress completed_subtasks =
     (let reported = max 0 (min 100 progress);
          total = length (g_subtasks goal);
          finished = length (filter (\<lambda>s. st_completed s \<or> st_id s \<in> set completed_subtasks)
                                    (g_subtasks goal))
      in if total = 0 then reported
         else max reported (real finished / real total * 100))"

subsection \<open>Dependencies\<close>

text \<open>
  \<^verbatim>\<open>_has_circular_dependency\<close> is a depth-first search that shares one mutable set
  \<^verbatim>\<open>visited\<close> among all its recursive calls: the model returns the set with the answer.
  \<open>circular_in_list\<close> is its \<^verbatim>\<open>for dep_id in goal["dependencies"]\<close> loop, which returns
  at the first dependency for which the search answers \<^verbatim>\<open>True\<close>.
\<close>

function has_circular_dependency ::
    "goal_system \<Rightarrow> string \<Rightarrow> string \<Rightarrow> string set \<Rightarrow> bool \<times> string set"
  and circular_in_list ::
    "goal_system \<Rightarrow> string list \<Rightarrow> string \<Rightarrow> string set \<Rightarrow> bool \<times> string set" where
  "has_circular_dependency st goal_id dependency_id visited =
     (if goal_id \<in> visited then (False, visited)
      else
        let visited1 = insert goal_id visited
        in if goal_id = dependency_id then (True, visited1)
           else (case get_goal st goal_id of
                   None \<Rightarrow> (False, visited1)
                 | Some goal \<Rightarrow>
                     circular_in_list st (g_dependencies goal) dependency_id visited1))"
| "circular_in_list st [] dependency_id visited = (False, visited)"
| "circular_in_list st (dep_id # rest) dependency_id visited =
     (let (found, visited1) = has_circular_dependency st dep_id dependency_id visited
      in if found then (True, visited1)
         else circular_in_list st rest dependency_id visited1)"
  by pat_completeness auto

definition stored_ids :: "goal_system \<Rightarrow> string set" where
  "stored_ids st = g_id ` set (goals st) \<union> g_id ` set (completed_goals st)"

lemma find_id: "find (\<lambda>g. g_id g = i) xs = Some g \<Longrightarrow> g \<in> set xs \<and> g_id g = i"
  by (induction xs) (auto split: if_splits)

lemma get_goal_stored: "get_goal st i = Some g \<Longrightarrow> i \<in> stored_ids st"
  by (auto simp: get_goal_def stored_ids_def split: option.splits dest!: find_id)

lemma finite_stored_ids: "finite (stored_ids st)"
  by (simp add: stored_ids_def)

lemma visited_grows_dom:
  "has_circular_dependency_circular_in_list_dom (Inl (st, goal_id, dependency_id, visited)) \<Longrightarrow>
     visited \<subseteq> snd (has_circular_dependency st goal_id dependency_id visited)"
  "has_circular_dependency_circular_in_list_dom (Inr (st, deps, dependency_id, visited)) \<Longrightarrow>
     visited \<subseteq> snd (circular_in_list st deps dependency_id visited)"
proof (induction st goal_id dependency_id visited and st deps dependency_id visited
    rule: has_circular_dependency_circular_in_list.pinduct)
  case (1 st goal_id dependency_id visited)
  then show ?case
    by (auto simp: has_circular_dependency.psimps Let_def split: option.splits)
next
  case (2 st dependency_id visited)
  then show ?case by (simp add: circular_in_list.psimps)
next
  case (3 st dep_id rest dependency_id visited)
  obtain found v1 where r: "has_circular_dependency st dep_id dependency_id visited = (found, v1)"
    by fastforce
  from 3(2) r have a: "visited \<subseteq> v1" by simp
  show ?case
  proof (cases found)
    case True
    then show ?thesis using 3(1) r a by (simp add: circular_in_list.psimps)
  next
    case False
    from 3(3) [of "(found, v1)" found v1] r False
    have "v1 \<subseteq> snd (circular_in_list st rest dependency_id v1)" by simp
    with a show ?thesis using 3(1) r False by (auto simp: circular_in_list.psimps)
  qed
qed

termination has_circular_dependency
proof (relation "measures
    [\<lambda>x. case x of Inl (st, goal_id, dependency_id, visited) \<Rightarrow> card (stored_ids st - visited)
               | Inr (st, deps, dependency_id, visited) \<Rightarrow> card (stored_ids st - visited),
     \<lambda>x. case x of Inl (st, goal_id, dependency_id, visited) \<Rightarrow> 0
               | Inr (st, deps, dependency_id, visited) \<Rightarrow> Suc (length deps)]", goal_cases)
  case 1
  then show ?case by simp
next
  case (2 st goal_id dependency_id visited x goal)
  have "goal_id \<in> stored_ids st" using 2 by (auto dest: get_goal_stored)
  with 2 have "stored_ids st - insert goal_id visited \<subset> stored_ids st - visited" by auto
  then have "card (stored_ids st - insert goal_id visited) < card (stored_ids st - visited)"
    by (intro psubset_card_mono) (simp_all add: finite_stored_ids)
  with 2 show ?case by simp
next
  case (3 st dep_id rest dependency_id visited)
  then show ?case by simp
next
  case (4 st dep_id rest dependency_id visited x found visited1)
  from 4 have "has_circular_dependency st dep_id dependency_id visited = (found, visited1)"
    by simp
  with visited_grows_dom(1) [OF 4(4)] have "visited \<subseteq> visited1" by simp
  then have "stored_ids st - visited1 \<subseteq> stored_ids st - visited" by auto
  then have "card (stored_ids st - visited1) \<le> card (stored_ids st - visited)"
    by (intro card_mono) (simp_all add: finite_stored_ids)
  then show ?case by auto
qed

declare has_circular_dependency.simps [simp del]

definition add_dependency :: "goal_system \<Rightarrow> string \<Rightarrow> string \<Rightarrow> bool \<times> goal_system" where
  "add_dependency st goal_id dependency_goal_id =
     (case (get_goal st goal_id, get_goal st dependency_goal_id) of
        (Some goal, Some dependency) \<Rightarrow>
          if fst (has_circular_dependency st dependency_goal_id goal_id {})
          then (False, st)
          else if dependency_goal_id \<in> set (g_dependencies goal)
          then (True, st)
          else (True,
                modify_goal st goal_id
                  (\<lambda>g. g\<lparr>g_dependencies := g_dependencies g @ [dependency_goal_id]\<rparr>))
      | _ \<Rightarrow> (False, st))"

subsection \<open>The next task\<close>

text \<open>
  \<^verbatim>\<open>sorted(self.goals, key=priority, reverse=True)\<close> is stable: goals of equal priority keep
  their order. The sorted list holds the dictionaries of \<^verbatim>\<open>self.goals\<close> themselves, so the
  model sorts their positions and reads each goal from the store when its turn comes.
\<close>

definition active_order :: "goal_system \<Rightarrow> nat list" where
  "active_order st = sort_key (\<lambda>i. - g_priority (goals st ! i)) [0..<length (goals st)]"

definition get_active_goals :: "goal_system \<Rightarrow> nat option \<Rightarrow> goal list" where
  "get_active_goals st max_count =
     (let sorted_goals = map (\<lambda>i. goals st ! i) (active_order st)
      in case max_count of None \<Rightarrow> sorted_goals | Some n \<Rightarrow> take n sorted_goals)"

text \<open>
  The generator inside \<^verbatim>\<open>any(...)\<close>: it subscripts the result of \<^verbatim>\<open>get_goal\<close>, which is
  \<^verbatim>\<open>None\<close> for an id that is in neither list, and then raises TypeError. \<^verbatim>\<open>any\<close> stops at
  the first dependency that is not completed.
\<close>

fun any_dependency_open :: "goal_system \<Rightarrow> string list \<Rightarrow> py_error + bool" where
  "any_dependency_open st [] = Inr False"
| "any_dependency_open st (dep_id # rest) =
     (case get_goal st dep_id of
        None \<Rightarrow> Inl TypeError
      | Some dep \<Rightarrow>
          if g_status dep \<noteq> ''completed'' then Inr True else any_dependency_open st rest)"

record task =
  t_goal_id :: string
  t_subtask_id :: string
  t_description :: string
  t_goal_description :: string
  t_priority :: int
  t_goal_type :: string

fun next_task_loop ::
  "goal_system \<Rightarrow> nat list \<Rightarrow> (py_error + task option) \<times> goal_system" where
  "next_task_loop st [] = (Inr None, st)"
| "next_task_loop st (i # rest) =
     (let goal = goals st ! i
      in case any_dependency_open st (g_dependencies goal) of
           Inl e \<Rightarrow> (Inl e, st)
         | Inr True \<Rightarrow> next_task_loop st rest
         | Inr False \<Rightarrow>
             let st1 = (if g_subtasks goal = [] then snd (decompose_goal st (g_id goal)) else st);
                 goal1 = goals st1 ! i
             in (case find (\<lambda>subtask. \<not> st_completed subtask) (g_subtasks goal1) of
                   Some subtask \<Rightarrow>
                     (Inr (Some \<lparr>t_goal_id = g_id goal1, t_subtask_id = st_id subtask,
                                  t_description = st_description subtask,
                                  t_goal_description = g_description goal1,
                                  t_priority = g_priority goal1, t_goal_type = g_type goal1\<rparr>),
                      st1)
                 | None \<Rightarrow> next_task_loop st1 rest))"

definition get_next_task :: "goal_system \<Rightarrow> (py_error + task option) \<times> goal_system" where
  "get_next_task st = next_task_loop st (active_order st)"

subsection \<open>Review\<close>

record suggestion =
  s_type :: string
  s_description :: string
  s_priority :: int
  s_reason :: string

text \<open>
  Midnight of the day of \<open>now\<close>, for \<^verbatim>\<open>datetime.now().replace(hour=0, minute=0, second=0,
  microsecond=0)\<close>. The descriptions and reasons are Japanese sentences in the source and
  are given in English.
\<close>

definition start_of_day :: "timestamp \<Rightarrow> timestamp" where
  "start_of_day now = real_of_int (\<lfloor>now / 86400\<rfloor> * 86400)"

definition suggest_new_goals :: "goal_system \<Rightarrow> timestamp \<Rightarrow> suggestion list" where
  "suggest_new_goals st now =
     (let suggestions0 =
            (if int (length (goals st)) < min_active_goals st
             then [\<lparr>s_type = ''knowledge_acquisition'',
                     s_description = ''extend the general knowledge of the knowledge base'',
                     s_priority = 3, s_reason = ''a richer knowledge base''\<rparr>,
                   \<lparr>s_type = ''skill_development'',
                     s_description = ''develop a more efficient way of searching information'',
                     s_priority = 4, s_reason = ''better information retrieval''\<rparr>]
             else []);
          last_optimization_goal =
            find (\<lambda>g. g_type g = ''optimization'' \<and> g_created_at g > start_of_day now)
                 (goals st @ completed_goals st);
          suggestions1 =
            (if last_optimization_goal = None
             then suggestions0 @
                    [\<lparr>s_type = ''optimization'',
                      s_description = ''optimize the knowledge processing pipeline'',
                      s_priority = 3, s_reason = ''better system efficiency''\<rparr>]
             else suggestions0);
          suggestions2 =
            (if length (goals st) > 10 \<or> length (completed_goals st) > 20
             then suggestions1 @
                    [\<lparr>s_type = ''maintenance'',
                      s_description = ''review and tidy old unused knowledge'',
                      s_priority = 2, s_reason = ''a tidy knowledge base''\<rparr>]
             else suggestions1)
      in suggestions2)"

record review_results =
  reviewed_goals :: int
  priority_adjustments :: int
  stalled_goals :: int
  goals_suggested :: int
  removed_goals :: int

datatype review_outcome = Skipped | Reviewed review_results

text \<open>
  The loop over \<^verbatim>\<open>goal["dependencies"][:]\<close>: it walks a copy and removes from the list
  itself the first occurrence of each dependency that is completed or not found.
\<close>

fun clean_dependencies :: "goal_system \<Rightarrow> string list \<Rightarrow> string list \<Rightarrow> string list" where
  "clean_dependencies st [] dependencies = dependencies"
| "clean_dependencies st (dep_id # rest) dependencies =
     (case get_goal st dep_id of
        None \<Rightarrow> clean_dependencies st rest (remove1 dep_id dependencies)
      | Some dep_goal \<Rightarrow>
          if g_status dep_goal = ''completed''
          then clean_dependencies st rest (remove1 dep_id dependencies)
          else clean_dependencies st rest dependencies)"

text \<open>
  The loop over \<^verbatim>\<open>self.goals[:]\<close>. It walks a copy of the list while it removes stalled
  goals from the list itself; \<open>n\<close> counts the goals of the copy that are still to come and
  \<open>pos\<close> is the place in the list of the goal whose turn it is (a removal leaves the next
  goal at the same place). A goal that has been removed from the list is no longer part of
  the store, so the cleaning of its dependencies changes nothing there.
\<close>

fun review_loop ::
  "timestamp \<Rightarrow> nat \<Rightarrow> nat \<Rightarrow> goal_system \<times> review_results \<Rightarrow> goal_system \<times> review_results" where
  "review_loop now 0 pos (st, rr) = (st, rr)"
| "review_loop now (Suc n) pos (st, rr) =
     (let goal = goals st ! pos;
          goal1 = goal\<lparr>g_review_count := g_review_count goal + 1, g_last_reviewed := Some now\<rparr>;
          st1 = st\<lparr>goals := (goals st)[pos := goal1]\<rparr>
      in if g_review_count goal1 > 3 \<and> g_progress goal1 < 30
         then
           let rr1 = rr\<lparr>stalled_goals := stalled_goals rr + 1\<rparr>
           in if g_review_count goal1 > 5
              then
                let st2 = st1\<lparr>goals := remove1 goal1 (goals st1)\<rparr>;
                    rr2 = rr1\<lparr>removed_goals := removed_goals rr1 + 1\<rparr>
                in review_loop now n pos (st2, rr2\<lparr>reviewed_goals := reviewed_goals rr2 + 1\<rparr>)
              else
                let goal2 = (if g_priority goal1 > 1
                             then goal1\<lparr>g_priority := g_priority goal1 - 1\<rparr> else goal1);
                    rr2 = (if g_priority goal1 > 1
                           then rr1\<lparr>priority_adjustments := priority_adjustments rr1 + 1\<rparr>
                           else rr1);
                    st2 = st1\<lparr>goals := (goals st1)[pos := goal2]\<rparr>;
                    goal3 = goal2\<lparr>g_dependencies :=
                                    clean_dependencies st2 (g_dependencies goal2)
                                      (g_dependencies goal2)\<rparr>;
                    st3 = st2\<lparr>goals := (goals st2)[pos := goal3]\<rparr>
                in review_loop now n (Suc pos)
                     (st3, rr2\<lparr>reviewed_goals := reviewed_goals rr2 + 1\<rparr>)
         else
           let goal3 = goal1\<lparr>g_dependencies :=
                               clean_dependencies st1 (g_dependencies goal1)
                                 (g_dependencies goal1)\<rparr>;
               st3 = st1\<lparr>goals := (goals st1)[pos := goal3]\<rparr>
           in review_loop now n (Suc pos) (st3, rr\<lparr>reviewed_goals := reviewed_goals rr + 1\<rparr>))"

text \<open>
  The module imports \<^verbatim>\<open>logging\<close>, \<^verbatim>\<open>json\<close>, \<^verbatim>\<open>time\<close>, \<^verbatim>\<open>os\<close>, \<^verbatim>\<open>datetime\<close> and
  \<^verbatim>\<open>typing\<close>, and not \<^verbatim>\<open>random\<close>: the first iteration of the loop over the suggestions
  evaluates \<^verbatim>\<open>random.random()\<close> and raises NameError, before \<^verbatim>\<open>set_goal\<close> can be called and
  before \<^verbatim>\<open>next_review_time\<close> is set. The changes that the loop over the goals made stay.
\<close>

definition review_goals ::
  "goal_system \<Rightarrow> timestamp \<Rightarrow> (py_error + review_outcome) \<times> goal_system" where
  "review_goals st now =
     (if now < next_review_time st then (Inr Skipped, st)
      else
        let review_results0 =
              \<lparr>reviewed_goals = 0, priority_adjustments = 0, stalled_goals = 0,
               goals_suggested = 0, removed_goals = 0\<rparr>;
            (st1, review_results1) = review_loop now (length (goals st)) 0 (st, review_results0);
            suggestions = suggest_new_goals st1 now
        in case suggestions of
             suggestion # rest \<Rightarrow> (Inl NameError, st1)
           | [] \<Rightarrow>
               (Inr (Reviewed review_results1),
                st1\<lparr>next_review_time := now + review_interval_hours st1 * 3600\<rparr>))"

subsection \<open>Sequences of operations\<close>

text \<open>
  The public operations of the store, each with the time at which it runs. \<open>apply_goal_op\<close>
  gives the store after the call, whether it returned or raised.
\<close>

datatype goal_op =
    SetGoal string string int "string option"
  | DecomposeGoal string
  | UpdateProgress string real "string list"
  | AddDependency string string
  | GetNextTask
  | ReviewGoals

fun apply_goal_op :: "goal_system \<Rightarrow> timestamp \<times> goal_op \<Rightarrow> goal_system" where
  "apply_goal_op st (now, SetGoal description goal_type priority deadline) =
     snd (set_goal st description goal_type priority deadline now)"
| "apply_goal_op st (now, DecomposeGoal goal_id) = snd (decompose_goal st goal_id)"
| "apply_goal_op st (now, UpdateProgress goal_id progress completed_subtasks) =
     snd (update_progress st goal_id progress completed_subtasks now)"
| "apply_goal_op st (now, AddDependency goal_id dependency_goal_id) =
     snd (add_dependency st goal_id dependency_goal_id)"
| "apply_goal_op st (now, GetNextTask) = snd (get_next_task st)"
| "apply_goal_op st (now, ReviewGoals) = snd (review_goals st now)"

definition run_goal_ops :: "goal_system \<Rightarrow> (timestamp \<times> goal_op) list \<Rightarrow> goal_system" where
  "run_goal_ops st calls = foldl apply_goal_op st calls"

subsection \<open>Scenarios over the goal store\<close>

definition plain_goal :: "string \<Rightarrow> string \<Rightarrow> int \<Rightarrow> timestamp \<Rightarrow> goal" where
  "plain_goal goal_id goal_type priority created =
     \<lparr>g_id = goal_id, g_description = ''d'', g_type = goal_type, g_priority = priority,
      g_status = ''active'', g_progress = 0, g_created_at = created, g_deadline = None,
      g_subtasks = [], g_dependencies = [], g_review_count = 0, g_last_reviewed = None,
      g_completed_at = None, g_updated_at = None\<rparr>"

text \<open>
  Four active goals on the second day: the first depends on the second, which has made no
  progress in five reviews; the third is an optimization goal created that day.
\<close>

definition stalled_store :: goal_system where
  "stalled_store =
     \<lparr>goals =
        [(plain_goal ''goal_86500_0'' ''creation'' 5 86500)\<lparr>g_dependencies := [''goal_100_0'']\<rparr>,
         (plain_goal ''goal_100_0'' ''exploration'' 3 100)\<lparr>g_review_count := 5\<rparr>,
         plain_goal ''goal_86500_2'' ''optimization'' 3 86500,
         plain_goal ''goal_86500_3'' ''assistance'' 2 86500],
      completed_goals = [], next_review_time = 90000, min_active_goals = 3,
      review_interval_hours = 1\<rparr>"

text \<open>Two fresh goals without dependencies.\<close>

definition two_goals :: goal_system where
  "two_goals =
     (init_goal_system 0)\<lparr>goals := [plain_goal ''goal_100_0'' ''creation'' 3 100,
                                   plain_goal ''goal_100_1'' ''creation'' 3 100]\<rparr>"

subsection \<open>Invariants of the goal store\<close>

text \<open>The progress of a goal lies between 0 and 100; every goal of the store is so.\<close>

definition in_range :: "goal \<Rightarrow> bool" where
  "in_range g = (0 \<le> g_progress g \<and> g_progress g \<le> 100)"

definition progress_in_range :: "goal_system \<Rightarrow> bool" where
  "progress_in_range st = list_all in_range (goals st @ completed_goals st)"

text \<open>
  What the review loop leaves alone in a goal: its id, its progress and its status.
\<close>

definition goal_key :: "goal \<Rightarrow> string \<times> real \<times> string" where
  "goal_key g = (g_id g, g_progress g, g_status g)"

text \<open>A goal created at time 100 on the initial store, then reported at progress 50.\<close>

definition progress_store :: goal_system where
  "progress_store =
     run_goal_ops (init_goal_system 0)
       [(100, SetGoal ''learn Isabelle'' ''skill_development'' 3 None),
        (101, UpdateProgress ''goal_100_0'' 50 [])]"

text \<open>A goal created at time 100 on the initial store and decomposed at time 101.\<close>

definition subtask_store :: goal_system where
  "subtask_store =
     run_goal_ops (init_goal_system 0)
       [(100, SetGoal ''learn Isabelle'' ''skill_development'' 3 None),
        (101, DecomposeGoal ''goal_100_0'')]"

text \<open>
  A store is well formed when no id occurs twice in its two lists, no active goal has the
  status \<open>completed\<close> and every goal of the completed list has it.
\<close>

definition well_formed :: "goal_system \<Rightarrow> bool" where
  "well_formed st =
     (distinct (map g_id (goals st) @ map g_id (completed_goals st))
      \<and> ''completed'' \<notin> set (map g_status (goals st))
      \<and> set (map g_status (completed_goals st)) \<subseteq> {''completed''})"

definition completed_ids :: "goal_system \<Rightarrow> string set" where
  "completed_ids st = g_id ` set (completed_goals st)"

text \<open>
  The id of a new goal is built from the second of the clock and the number of active
  goals, so \<^verbatim>\<open>set_goal\<close> can build an id that the store already holds. A sequence of calls
  has fresh ids when no call of \<^verbatim>\<open>set_goal\<close> in it does so.
\<close>

fun fresh_ids :: "goal_system \<Rightarrow> (timestamp \<times> goal_op) list \<Rightarrow> bool" where
  "fresh_ids st [] = True"
| "fresh_ids st ((now, SetGoal description goal_type priority deadline) # calls) =
     ((description \<noteq> [] \<longrightarrow> new_goal_id st now \<notin> stored_ids st)
      \<and> fresh_ids (apply_goal_op st (now, SetGoal description goal_type priority deadline)) calls)"
| "fresh_ids st (call # calls) = fresh_ids (apply_goal_op st call) calls"

text \<open>
  A goal created at time 100 on the initial store and completed at time 101, and calls that
  follow.
\<close>

definition completed_store :: goal_system where
  "completed_store =
     run_goal_ops (init_goal_system 0)
       [(100, SetGoal ''learn Isabelle'' ''skill_development'' 3 None),
        (101, UpdateProgress ''goal_100_0'' 100 [])]"

definition later_calls :: "(timestamp \<times> goal_op) list" where
  "later_calls =
     [(102, UpdateProgress ''goal_100_0'' 30 []),
      (200, SetGoal ''write proofs'' ''creation'' 2 None),
      (201, GetNextTask)]"

text \<open>
  A goal created at second 100 and completed in that second, and a second goal created in
  the same second.
\<close>

definition reused_id_store :: goal_system where
  "reused_id_store =
     run_goal_ops (init_goal_system 0)
       [(100, SetGoal ''learn Isabelle'' ''skill_development'' 3 None),
        (100.25, UpdateProgress ''goal_100_0'' 100 []),
        (100.5, SetGoal ''write proofs'' ''creation'' 2 None)]"

section \<open>Verified properties\<close>

subsection \<open>The health score\<close>

lemma heartbeat_status_missing: "(heartbeat_status a = ''missing'') = (a \<ge> 180)"
  by (simp add: heartbeat_status_def)

lemma check_components_lists:
  "snd (check_components now cs (st, ia, ec)) =
     (ia @ map fst (filter (\<lambda>(n, c). spec_inactive now c) cs),
      ec @ map fst (filter (\<lambda>(n, c). spec_in_error c) cs))"
proof (induction cs arbitrary: st ia ec)
  case Nil
  then show ?case by simp
next
  case (Cons p cs)
  obtain n c where p: "p = (n, c)" by (cases p)
  show ?case
    unfolding p
    by (simp add: Let_def Cons.IH heartbeat_status_missing spec_inactive_def spec_in_error_def)
qed

lemma count_recent_errors_filter:
  "count_recent_errors now es k = k + int (length (filter (spec_recent now) es))"
  by (induction es arbitrary: k) (auto simp: spec_recent_def Let_def split: option.splits)

text \<open>
  Claim C1. For every state of the registry and of the error log and every evaluation
  time, the health score that \<open>monitor_system_health\<close> reports is 100 minus 15 for each
  inactive component, minus 20 for each component in the error state, minus 5 for each
  log entry less than 60 seconds old, clamped to the range from 0 to 100.
\<close>

theorem health_score_formula:
  "h_health_score (fst (monitor_system_health sp now)) = spec_health_score sp now
   \<and> 0 \<le> h_health_score (fst (monitor_system_health sp now))
   \<and> h_health_score (fst (monitor_system_health sp now)) \<le> 100"
proof -
  obtain st ia ec where cc: "check_components now (component_states sp) ([], [], []) = (st, ia, ec)"
    by (cases "check_components now (component_states sp) ([], [], [])") auto
  from check_components_lists [of now "component_states sp" "[]" "[]" "[]"] cc
  have ia: "ia = map fst (filter (\<lambda>(n, c). spec_inactive now c) (component_states sp))"
    and ec: "ec = map fst (filter (\<lambda>(n, c). spec_in_error c) (component_states sp))"
    by simp_all
  have score: "h_health_score (fst (monitor_system_health sp now)) = spec_health_score sp now"
    by (simp add: monitor_system_health_def cc Let_def spec_health_score_def ia ec
        count_recent_errors_filter)
  show ?thesis
    unfolding score by (simp add: spec_health_score_def)
qed

subsection \<open>A single failed component\<close>

lemma error_scenario_components:
  assumes "component_states sp0 = []" "b \<noteq> a"
  shows "component_states (error_scenario sp0 a b t1 t2 t3) =
    [(a, \<lparr>c_state = ''error'', c_last_heartbeat = t3, c_error_count = 1, c_recovery_count = 0,
          c_last_error = Some t3\<rparr>),
     (b, \<lparr>c_state = ''active'', c_last_heartbeat = t2, c_error_count = 0, c_recovery_count = 0,
          c_last_error = None\<rparr>)]"
  using assms
  by (simp add: error_scenario_def update_component_state_def register_component_def
      update_system_state_def Let_def)

lemma error_scenario_log:
  assumes "component_states sp0 = []" "error_log sp0 = []" "b \<noteq> a"
  shows "length (error_log (error_scenario sp0 a b t1 t2 t3)) \<le> 2"
  using assms
  by (simp add: error_scenario_def update_component_state_def register_component_def
      update_system_state_def Let_def)

text \<open>
  Claim C3, as the code has it. When exactly the components \<open>a\<close> (one of the two
  safety-critical names) and \<open>b\<close> are registered on a state with no component and no logged
  error, and \<open>a\<close> is then put into the error state, \<open>monitor_system_health\<close> reports the
  status \<open>degraded\<close> (not \<open>critical\<close>: one component in error and at most two recent log
  entries) and a health score of at most 80, at whatever time it runs.
\<close>

theorem single_critical_error_is_degraded:
  assumes "a \<in> set critical_components" and "b \<noteq> a"
    and "component_states sp0 = []" and "error_log sp0 = []"
  shows "h_status (fst (monitor_system_health (error_scenario sp0 a b t1 t2 t3) now)) = ''degraded''
    \<and> h_health_score (fst (monitor_system_health (error_scenario sp0 a b t1 t2 t3) now)) \<le> 80"
proof -
  let ?sp = "error_scenario sp0 a b t1 t2 t3"
  have cs: "component_states ?sp =
    [(a, \<lparr>c_state = ''error'', c_last_heartbeat = t3, c_error_count = 1, c_recovery_count = 0,
          c_last_error = Some t3\<rparr>),
     (b, \<lparr>c_state = ''active'', c_last_heartbeat = t2, c_error_count = 0, c_recovery_count = 0,
          c_last_error = None\<rparr>)]"
    using assms by (simp add: error_scenario_components)
  have "length (filter (spec_recent now) (error_log ?sp)) \<le> length (error_log ?sp)"
    by simp
  also have "\<dots> \<le> 2" using assms by (simp add: error_scenario_log)
  finally have recent: "count_recent_errors now (error_log ?sp) 0 \<le> 2"
    by (simp add: count_recent_errors_filter)
  have recent0: "0 \<le> count_recent_errors now (error_log ?sp) 0"
    by (simp add: count_recent_errors_filter)
  obtain st ia ec where cc: "check_components now (component_states ?sp) ([], [], []) = (st, ia, ec)"
    by (cases "check_components now (component_states ?sp) ([], [], [])") auto
  from check_components_lists [of now "component_states ?sp" "[]" "[]" "[]"] cc
  have ec: "ec = [a]"
    by (simp add: cs spec_in_error_def)
  have status: "h_status (fst (monitor_system_health ?sp now)) = ''degraded''"
    using recent by (simp add: monitor_system_health_def cc Let_def ec errors_per_minute_def)
  have "h_health_score (fst (monitor_system_health ?sp now)) \<le> 80"
    using recent0 by (simp add: monitor_system_health_def cc Let_def ec)
  with status show ?thesis by simp
qed

theorem single_critical_error_is_degraded_witness:
  "''safety_filter'' \<in> set critical_components \<and> ''knowledge_base'' \<noteq> ''safety_filter''
   \<and> component_states (init_preservation 0) = [] \<and> error_log (init_preservation 0) = []
   \<and> h_status (fst (monitor_system_health
        (error_scenario (init_preservation 0) ''safety_filter'' ''knowledge_base'' 1 2 3) 4)) = ''degraded''
   \<and> h_health_score (fst (monitor_system_health
        (error_scenario (init_preservation 0) ''safety_filter'' ''knowledge_base'' 1 2 3) 4)) \<le> 80"
proof -
  have h1: "''safety_filter'' \<in> set critical_components" by (simp add: critical_components_def)
  have h2: "''knowledge_base'' \<noteq> ''safety_filter''" by simp
  have h3: "component_states (init_preservation 0) = []" by (simp add: init_preservation_def)
  have h4: "error_log (init_preservation 0) = []" by (simp add: init_preservation_def)
  from single_critical_error_is_degraded [OF h1 h2 h3 h4, of 1 2 3 4] h1 h2 h3 h4
  show ?thesis by blast
qed

text \<open>
  The claim as stated fails: with \<open>safety_filter\<close> and \<open>knowledge_base\<close> registered at times
  1 and 2 and \<open>safety_filter\<close> put into error at time 3, the evaluation at time 4 does not
  report \<open>critical\<close>.
\<close>

theorem critical_status_counterexample:
  "\<not> (h_status (fst (monitor_system_health
        (error_scenario (init_preservation 0) ''safety_filter'' ''knowledge_base'' 1 2 3) 4)) = ''critical''
      \<and> h_health_score (fst (monitor_system_health
        (error_scenario (init_preservation 0) ''safety_filter'' ''knowledge_base'' 1 2 3) 4)) \<le> 80)"
  by (simp add: error_scenario_def update_component_state_def register_component_def
      update_system_state_def Let_def init_preservation_def monitor_system_health_def
      critical_components_def heartbeat_status_def errors_per_minute_def)

subsection \<open>The shutdown marker\<close>

text \<open>
  Claim C7, evaluated on the code. After \<open>safe_shutdown\<close> the system state is
  \<open>shutting_down\<close> and \<open>monitor_system_health\<close> leaves it so, but a later \<open>report_error\<close>
  of critical severity, and a later transition of a safety-critical component into the
  error state, both overwrite the marker with \<open>degraded\<close>.
\<close>

theorem shutdown_marker_overwritten:
  "system_state shut_down = ''shutting_down''
   \<and> system_state (snd (monitor_system_health shut_down 20)) = ''shutting_down''
   \<and> system_state (snd (report_error shut_down critical_report 20 (\<lambda>d. 0))) = ''degraded''
   \<and> system_state (snd (update_component_state shut_down ''safety_filter'' ''error'' 20)) = ''degraded''"
  by (simp add: shut_down_def safe_shutdown_def save_system_state_def start_monitoring_def
      stop_monitoring_def register_component_def init_preservation_def update_system_state_def
      monitor_system_health_def report_error_def critical_report_def update_component_state_def
      critical_components_def Let_def snapshot_of_def heartbeat_status_def errors_per_minute_def)

subsection \<open>Unregistered components\<close>

text \<open>
  Claim C8. For a component name that is not a key of the registry, \<open>component_heartbeat\<close>
  and \<open>update_component_state\<close> both return \<open>False\<close> and return the state as it was: no
  entry is created for the name and nothing else changes.
\<close>

theorem unknown_component_rejected:
  assumes "name \<notin> fst ` set (component_states sp)"
  shows "component_heartbeat sp name now = (False, sp)
         \<and> update_component_state sp name state now' = (False, sp)"
proof -
  from assms have "map_of (component_states sp) name = None"
    by (simp add: map_of_eq_None_iff)
  then show ?thesis
    by (simp add: component_heartbeat_def update_component_state_def)
qed

theorem unknown_component_rejected_witness:
  "''ghost'' \<notin> fst ` set (component_states (register_component (init_preservation 0) ''core'' ''active'' 0))
   \<and> component_heartbeat (register_component (init_preservation 0) ''core'' ''active'' 0) ''ghost'' 5
       = (False, register_component (init_preservation 0) ''core'' ''active'' 0)
   \<and> update_component_state (register_component (init_preservation 0) ''core'' ''active'' 0) ''ghost'' ''error'' 5
       = (False, register_component (init_preservation 0) ''core'' ''active'' 0)"
proof -
  have h: "''ghost'' \<notin> fst ` set (component_states (register_component (init_preservation 0) ''core'' ''active'' 0))"
    by (simp add: register_component_def init_preservation_def)
  from unknown_component_rejected [OF h, of 5 "''error''" 5] h show ?thesis by blast
qed

subsection \<open>What a restore writes\<close>

lemma restore_none:
  "chosen_backup filename backup_files = None \<Longrightarrow>
   restore_system_state sp filename backup_files read_file = (IoError ''No backup files found'', sp)"
  by (simp add: restore_system_state_def)

lemma restore_object:
  "chosen_backup filename backup_files = Some f \<Longrightarrow> read_file f = JsonObject d \<Longrightarrow>
   restore_system_state sp filename backup_files read_file =
     (IoSuccess f (a_timestamp d),
      sp\<lparr>system_state := (case a_system_state d of None \<Rightarrow> ''stable'' | Some s \<Rightarrow> s),
         component_states := (case a_component_states d of None \<Rightarrow> [] | Some cs \<Rightarrow> cs),
         recovery_counters :=
           (case a_recovery_counters d of None \<Rightarrow> initial_counters | Some rc \<Rightarrow> rc)\<rparr>)"
  by (simp add: restore_system_state_def Let_def)

lemma restore_failure:
  "chosen_backup filename backup_files = Some f \<Longrightarrow>
   read_file f = Unreadable e \<or> read_file f = NotAnObject e \<Longrightarrow>
   restore_system_state sp filename backup_files read_file =
     (IoError e,
      sp\<lparr>error_log := error_log sp @
           [InternalFailure ''state_restore_failure'' (''Failed to restore system state: '' @ e)]\<rparr>)"
  by (auto simp add: restore_system_state_def Let_def)

text \<open>
  Claim C10. When \<open>restore_system_state\<close> succeeds, the new state is the old one with exactly
  the three fields \<open>system_state\<close>, \<open>component_states\<close> and \<open>recovery_counters\<close> replaced by
  the values of the chosen file (or their defaults where the file lacks the key); the error
  log and every other field are as before, so the \<open>error_count\<close> of the file is not
  restored. When it fails, those three fields are as before.
\<close>

theorem restore_frame:
  assumes "restore_system_state sp filename backup_files read_file = (res, sp')"
  shows "(io_status res = ''success'' \<longrightarrow>
            (\<exists>f d. chosen_backup filename backup_files = Some f \<and> read_file f = JsonObject d
               \<and> sp' = sp\<lparr>system_state := (case a_system_state d of None \<Rightarrow> ''stable'' | Some s \<Rightarrow> s),
                          component_states := (case a_component_states d of None \<Rightarrow> [] | Some cs \<Rightarrow> cs),
                          recovery_counters :=
                            (case a_recovery_counters d of None \<Rightarrow> initial_counters | Some rc \<Rightarrow> rc)\<rparr>)
            \<and> error_log sp' = error_log sp \<and> monitoring_active sp' = monitoring_active sp
            \<and> last_state_save sp' = last_state_save sp
            \<and> shutdown_requested sp' = shutdown_requested sp)
       \<and> (io_status res \<noteq> ''success'' \<longrightarrow>
            system_state sp' = system_state sp \<and> component_states sp' = component_states sp
            \<and> recovery_counters sp' = recovery_counters sp)"
proof (cases "chosen_backup filename backup_files")
  case None
  from restore_none [OF None, of sp read_file] assms show ?thesis by simp
next
  case (Some f)
  show ?thesis
  proof (cases "read_file f")
    case (Unreadable e)
    with restore_failure [where read_file = read_file and sp = sp and e = e, OF Some] assms
    show ?thesis by simp
  next
    case (NotAnObject e)
    with restore_failure [where read_file = read_file and sp = sp and e = e, OF Some] assms
    show ?thesis by simp
  next
    case (JsonObject d)
    from restore_object [where read_file = read_file and sp = sp, OF Some JsonObject] assms
    have res: "res = IoSuccess f (a_timestamp d)"
      and sp': "sp' = sp\<lparr>system_state := (case a_system_state d of None \<Rightarrow> ''stable'' | Some s \<Rightarrow> s),
         component_states := (case a_component_states d of None \<Rightarrow> [] | Some cs \<Rightarrow> cs),
         recovery_counters :=
           (case a_recovery_counters d of None \<Rightarrow> initial_counters | Some rc \<Rightarrow> rc)\<rparr>"
      by simp_all
    have "\<exists>f d. chosen_backup filename backup_files = Some f \<and> read_file f = JsonObject d
               \<and> sp' = sp\<lparr>system_state := (case a_system_state d of None \<Rightarrow> ''stable'' | Some s \<Rightarrow> s),
                          component_states := (case a_component_states d of None \<Rightarrow> [] | Some cs \<Rightarrow> cs),
                          recovery_counters :=
                            (case a_recovery_counters d of None \<Rightarrow> initial_counters | Some rc \<Rightarrow> rc)\<rparr>"
      using Some JsonObject sp' by blast
    moreover have "error_log sp' = error_log sp \<and> monitoring_active sp' = monitoring_active sp
            \<and> last_state_save sp' = last_state_save sp
            \<and> shutdown_requested sp' = shutdown_requested sp"
      by (simp add: sp')
    ultimately show ?thesis by (simp add: res)
  qed
qed

theorem restore_frame_witness:
  "restore_system_state running_state None [''backups/b2.json'', ''backups/b1.json'']
       (\<lambda>f. JsonObject stored_backup)
     = (IoSuccess ''backups/b2.json'' (Some 2),
        running_state\<lparr>system_state := ''initializing'',
           component_states :=
             [(''safety_filter'', \<lparr>c_state = ''active'', c_last_heartbeat = 1, c_error_count = 0,
                 c_recovery_count = 0, c_last_error = None\<rparr>)],
           recovery_counters := initial_counters\<rparr>)
   \<and> error_log (snd (restore_system_state running_state None
         [''backups/b2.json'', ''backups/b1.json''] (\<lambda>f. JsonObject stored_backup)))
       = [ComponentError ''knowledge_base'' ''active'' 5]
   \<and> fst (restore_system_state running_state (Some ''missing.json'') [] (\<lambda>f. Unreadable ''No such file''))
       = IoError ''No such file''
   \<and> component_states (snd (restore_system_state running_state (Some ''missing.json'') []
         (\<lambda>f. Unreadable ''No such file''))) = component_states running_state"
proof -
  obtain res sp' where ok: "restore_system_state running_state None
      [''backups/b2.json'', ''backups/b1.json''] (\<lambda>f. JsonObject stored_backup) = (res, sp')"
    by (cases "restore_system_state running_state None
      [''backups/b2.json'', ''backups/b1.json''] (\<lambda>f. JsonObject stored_backup)") auto
  have res: "res = IoSuccess ''backups/b2.json'' (Some 2)"
    using ok by (simp add: restore_system_state_def chosen_backup_def Let_def stored_backup_def
        snapshot_of_def)
  have log: "error_log running_state = [ComponentError ''knowledge_base'' ''active'' 5]"
    by (simp add: running_state_def update_component_state_def register_component_def
        init_preservation_def critical_components_def Let_def)
  from restore_frame [OF ok] res
  have a: "error_log sp' = error_log running_state"
    and b: "\<exists>f d. chosen_backup None [''backups/b2.json'', ''backups/b1.json''] = Some f
             \<and> JsonObject stored_backup = JsonObject d
             \<and> sp' = running_state\<lparr>system_state := (case a_system_state d of None \<Rightarrow> ''stable'' | Some s \<Rightarrow> s),
                          component_states := (case a_component_states d of None \<Rightarrow> [] | Some cs \<Rightarrow> cs),
                          recovery_counters :=
                            (case a_recovery_counters d of None \<Rightarrow> initial_counters | Some rc \<Rightarrow> rc)\<rparr>"
    by simp_all
  from b have sp': "sp' = running_state\<lparr>system_state := ''initializing'',
           component_states :=
             [(''safety_filter'', \<lparr>c_state = ''active'', c_last_heartbeat = 1, c_error_count = 0,
                 c_recovery_count = 0, c_last_error = None\<rparr>)],
           recovery_counters := initial_counters\<rparr>"
    by (auto simp: stored_backup_def snapshot_of_def register_component_def init_preservation_def)
  obtain res2 sp2 where bad: "restore_system_state running_state (Some ''missing.json'') []
      (\<lambda>f. Unreadable ''No such file'') = (res2, sp2)"
    by (cases "restore_system_state running_state (Some ''missing.json'') []
      (\<lambda>f. Unreadable ''No such file'')") auto
  have res2: "res2 = IoError ''No such file''"
    using bad by (simp add: restore_system_state_def chosen_backup_def)
  from restore_frame [OF bad] res2
  have c: "component_states sp2 = component_states running_state" by simp
  show ?thesis
    using ok res sp' a log bad res2 c by simp
qed

subsection \<open>Review and the next task\<close>

lemma upt_small: "[0..<4] = [0, 1, 2, 3]" "[0..<3] = [0, 1, 2]"
  by (simp_all add: upt_rec)

text \<open>
  Claim C6, evaluated on the code. On the store that \<^verbatim>\<open>__init__\<close> builds (no goals), one
  hour later, the review interval has elapsed and \<open>review_goals\<close> does not return: there
  are suggestions, and the first one makes it raise NameError.
\<close>

theorem review_raises_name_error:
  "next_review_time (init_goal_system 0) \<le> 3600
   \<and> suggest_new_goals (init_goal_system 0) 3600 \<noteq> []
   \<and> review_goals (init_goal_system 0) 3600 = (Inl NameError, init_goal_system 0)"
  by (simp add: review_goals_def init_goal_system_def suggest_new_goals_def Let_def)

text \<open>
  Claim C9, evaluated on the code. The review of \<open>stalled_store\<close> at time 90000 returns
  with success and removes the stalled goal, on which the first goal still depends; the
  id no longer resolves, and \<open>get_next_task\<close> on the store after the review raises
  TypeError.
\<close>

theorem next_task_fails_on_dangling_dependency:
  "fst (review_goals stalled_store 90000) =
     Inr (Reviewed \<lparr>reviewed_goals = 4, priority_adjustments = 0, stalled_goals = 1,
                     goals_suggested = 0, removed_goals = 1\<rparr>)
   \<and> get_goal (snd (review_goals stalled_store 90000)) ''goal_100_0'' = None
   \<and> map g_dependencies (goals (snd (review_goals stalled_store 90000))) = [[''goal_100_0''], [], []]
   \<and> fst (get_next_task (snd (review_goals stalled_store 90000))) = Inl TypeError"
  by (simp add: review_goals_def stalled_store_def plain_goal_def suggest_new_goals_def Let_def
      start_of_day_def get_next_task_def active_order_def get_goal_def upt_small)

subsection \<open>Dependencies between goals\<close>

lemma find_id_none: "(find (\<lambda>g. g_id g = i) xs = None) = (i \<notin> g_id ` set xs)"
  by (auto simp: find_None_iff)

lemma find_update_first_other:
  assumes "j \<noteq> i" and "\<And>x. g_id x = i \<Longrightarrow> g_id (f x) = i"
  shows "find (\<lambda>g. g_id g = j) (update_first (\<lambda>g. g_id g = i) f xs) = find (\<lambda>g. g_id g = j) xs"
  using assms by (induction xs) auto

lemma find_update_first_same:
  assumes "\<And>x. g_id x = i \<Longrightarrow> g_id (f x) = i"
  shows "find (\<lambda>g. g_id g = i) (update_first (\<lambda>g. g_id g = i) f xs)
         = map_option f (find (\<lambda>g. g_id g = i) xs)"
  using assms by (induction xs) auto

lemma get_goal_modify_other:
  assumes "j \<noteq> i" and "\<And>x. g_id x = i \<Longrightarrow> g_id (f x) = i"
  shows "get_goal (modify_goal st i f) j = get_goal st j"
  using assms
  by (simp add: get_goal_def modify_goal_def find_update_first_other split: option.splits)

lemma get_goal_modify_same:
  assumes "\<And>x. g_id x = i \<Longrightarrow> g_id (f x) = i"
  shows "get_goal (modify_goal st i f) i = map_option f (get_goal st i)"
  using assms
  by (auto simp add: get_goal_def modify_goal_def find_update_first_same split: option.splits)

lemma target_stays_unvisited:
  "dependency_id \<notin> visited \<Longrightarrow>
   \<not> fst (has_circular_dependency st goal_id dependency_id visited) \<Longrightarrow>
   dependency_id \<notin> snd (has_circular_dependency st goal_id dependency_id visited)"
  "dependency_id \<notin> visited \<Longrightarrow>
   \<not> fst (circular_in_list st deps dependency_id visited) \<Longrightarrow>
   dependency_id \<notin> snd (circular_in_list st deps dependency_id visited)"
proof (induction st goal_id dependency_id visited and st deps dependency_id visited
    rule: has_circular_dependency_circular_in_list.induct)
  case (1 st goal_id dependency_id visited)
  show ?case
  proof (cases "goal_id \<in> visited")
    case True
    then show ?thesis using 1(2) by (simp add: has_circular_dependency.simps)
  next
    case False
    note nv = this
    show ?thesis
    proof (cases "goal_id = dependency_id")
      case True
      then show ?thesis using 1(3) nv by (simp add: has_circular_dependency.simps)
    next
      case False
      note ne = this
      show ?thesis
      proof (cases "get_goal st goal_id")
        case None
        then show ?thesis using nv ne 1(2) by (simp add: has_circular_dependency.simps)
      next
        case (Some goal)
        have eq: "has_circular_dependency st goal_id dependency_id visited =
                  circular_in_list st (g_dependencies goal) dependency_id (insert goal_id visited)"
          using nv ne Some by (simp add: has_circular_dependency.simps)
        from 1(1) [OF nv refl ne Some] 1(2) 1(3) ne eq show ?thesis by auto
      qed
    qed
  qed
next
  case (2 st dependency_id visited)
  then show ?case by simp
next
  case (3 st dep_id rest dependency_id visited)
  obtain found v1 where r: "has_circular_dependency st dep_id dependency_id visited = (found, v1)"
    by fastforce
  from 3(4) r have nf: "\<not> found" by (auto split: if_splits)
  from 3(1) [OF 3(3)] r nf have v1: "dependency_id \<notin> v1" by simp
  from 3(2) [OF r [symmetric] refl nf v1] 3(4) r nf show ?case by simp
qed

lemma dependency_in_list_found:
  "dependency_id \<in> set deps \<Longrightarrow> dependency_id \<notin> visited \<Longrightarrow>
   fst (circular_in_list st deps dependency_id visited)"
proof (induction deps arbitrary: visited)
  case Nil
  then show ?case by simp
next
  case (Cons dep_id rest)
  obtain found v1 where r: "has_circular_dependency st dep_id dependency_id visited = (found, v1)"
    by fastforce
  show ?case
  proof (cases found)
    case True
    then show ?thesis using r by simp
  next
    case False
    have "dep_id \<noteq> dependency_id"
    proof
      assume "dep_id = dependency_id"
      with Cons.prems(2) have "fst (has_circular_dependency st dep_id dependency_id visited)"
        by (simp add: has_circular_dependency.simps)
      with r False show False by simp
    qed
    with Cons.prems(1) have "dependency_id \<in> set rest" by auto
    moreover from target_stays_unvisited(1) [OF Cons.prems(2), of st dep_id] r False
    have "dependency_id \<notin> v1" by simp
    ultimately have "fst (circular_in_list st rest dependency_id v1)" by (rule Cons.IH)
    then show ?thesis using r False by simp
  qed
qed

lemma search_ignores_target_goal:
  "\<not> fst (has_circular_dependency st goal_id t visited) \<Longrightarrow>
     (\<And>x. g_id x = t \<Longrightarrow> g_id (f x) = t) \<Longrightarrow>
     has_circular_dependency (modify_goal st t f) goal_id t visited =
     has_circular_dependency st goal_id t visited"
  "\<not> fst (circular_in_list st deps t visited) \<Longrightarrow>
     (\<And>x. g_id x = t \<Longrightarrow> g_id (f x) = t) \<Longrightarrow>
     circular_in_list (modify_goal st t f) deps t visited = circular_in_list st deps t visited"
proof (induction st goal_id t visited and st deps t visited
    rule: has_circular_dependency_circular_in_list.induct)
  case (1 st goal_id dependency_id visited)
  note f1 = "1.prems"(2)
  note nf = "1.prems"(1)
  show ?case
  proof (cases "goal_id \<in> visited")
    case True
    then show ?thesis by (simp add: has_circular_dependency.simps)
  next
    case False
    note nv = this
    show ?thesis
    proof (cases "goal_id = dependency_id")
      case True
      then show ?thesis using nf nv by (simp add: has_circular_dependency.simps)
    next
      case False
      note ne = this
      have gg: "get_goal (modify_goal st dependency_id f) goal_id = get_goal st goal_id"
        using ne f1 by (intro get_goal_modify_other) auto
      show ?thesis
      proof (cases "get_goal st goal_id")
        case None
        then show ?thesis using nv ne gg by (simp add: has_circular_dependency.simps)
      next
        case (Some goal)
        have eq: "has_circular_dependency st goal_id dependency_id visited =
                  circular_in_list st (g_dependencies goal) dependency_id (insert goal_id visited)"
          using nv ne Some by (simp add: has_circular_dependency.simps)
        have eq': "has_circular_dependency (modify_goal st dependency_id f) goal_id dependency_id visited =
                  circular_in_list (modify_goal st dependency_id f) (g_dependencies goal)
                    dependency_id (insert goal_id visited)"
          using nv ne Some gg by (simp add: has_circular_dependency.simps)
        from nf eq have "\<not> fst (circular_in_list st (g_dependencies goal) dependency_id
                                   (insert goal_id visited))" by simp
        from "1.IH" [OF nv refl ne Some this f1] eq eq' show ?thesis by simp
      qed
    qed
  qed
next
  case (2 st dependency_id visited)
  then show ?case by simp
next
  case (3 st dep_id rest dependency_id visited)
  note f1 = "3.prems"(2)
  obtain found v1 where r: "has_circular_dependency st dep_id dependency_id visited = (found, v1)"
    by fastforce
  from "3.prems"(1) r have nf: "\<not> found" by (auto split: if_splits)
  from "3.IH"(1) [OF _ f1] r nf
  have r': "has_circular_dependency (modify_goal st dependency_id f) dep_id dependency_id visited
            = (found, v1)" by simp
  from "3.prems"(1) r nf have "\<not> fst (circular_in_list st rest dependency_id v1)" by simp
  from "3.IH"(2) [OF r [symmetric] refl nf this f1] r r' nf show ?case by simp
qed

lemma add_dependency_result:
  assumes "add_dependency st a b = (True, st')"
  obtains ga gb where "get_goal st a = Some ga" "get_goal st b = Some gb"
    "\<not> fst (has_circular_dependency st b a {})"
    "st' = (if b \<in> set (g_dependencies ga) then st
            else modify_goal st a (\<lambda>g. g\<lparr>g_dependencies := g_dependencies g @ [b]\<rparr>))"
  using assms
  by (auto simp: add_dependency_def split: option.splits if_splits)

text \<open>
  Claim C5. Whenever \<open>add_dependency a b\<close> succeeds, the call \<open>add_dependency b a\<close> on the
  resulting store returns \<open>False\<close> (the search from \<open>a\<close> reaches \<open>b\<close>) and leaves the store
  as it is, and adding the dependency of \<open>a\<close> on \<open>b\<close> once more returns \<open>True\<close> and leaves
  the store as it is. The operation has no raising branch.
\<close>

theorem dependency_cycle_rejected:
  assumes "add_dependency st a b = (True, st')"
  shows "add_dependency st' b a = (False, st') \<and> add_dependency st' a b = (True, st')"
proof -
  let ?f = "\<lambda>g. g\<lparr>g_dependencies := g_dependencies g @ [b]\<rparr>"
  from assms obtain ga gb where ga: "get_goal st a = Some ga" and gb: "get_goal st b = Some gb"
    and nc: "\<not> fst (has_circular_dependency st b a {})"
    and st': "st' = (if b \<in> set (g_dependencies ga) then st else modify_goal st a ?f)"
    by (rule add_dependency_result)
  have ne: "a \<noteq> b"
  proof
    assume "a = b"
    with nc show False by (simp add: has_circular_dependency.simps)
  qed
  obtain ga' where ga': "get_goal st' a = Some ga'" and dep: "b \<in> set (g_dependencies ga')"
  proof (cases "b \<in> set (g_dependencies ga)")
    case True
    with st' ga that show ?thesis by simp
  next
    case False
    have "get_goal (modify_goal st a ?f) a = Some (?f ga)"
      using ga by (simp add: get_goal_modify_same)
    with False st' that show ?thesis by simp
  qed
  have gb': "get_goal st' b = Some gb"
  proof (cases "b \<in> set (g_dependencies ga)")
    case True
    with st' gb show ?thesis by simp
  next
    case False
    have "get_goal (modify_goal st a ?f) b = get_goal st b"
      using ne by (intro get_goal_modify_other) auto
    with False st' gb show ?thesis by simp
  qed
  have same: "has_circular_dependency st' b a {} = has_circular_dependency st b a {}"
  proof (cases "b \<in> set (g_dependencies ga)")
    case True
    with st' show ?thesis by simp
  next
    case False
    have "has_circular_dependency (modify_goal st a ?f) b a {} = has_circular_dependency st b a {}"
      using nc by (intro search_ignores_target_goal(1)) auto
    with False st' show ?thesis by simp
  qed
  have "fst (circular_in_list st' (g_dependencies ga') b {a})"
    using dep ne by (intro dependency_in_list_found) auto
  then have cyc: "fst (has_circular_dependency st' a b {})"
    using ne ga' by (simp add: has_circular_dependency.simps)
  have rejected: "add_dependency st' b a = (False, st')"
    using ga' gb' cyc by (simp add: add_dependency_def)
  have again: "add_dependency st' a b = (True, st')"
    using ga' gb' same nc dep by (simp add: add_dependency_def)
  from rejected again show ?thesis by simp
qed

lemma two_goals_add:
  "add_dependency two_goals ''goal_100_0'' ''goal_100_1'' =
     (True, two_goals\<lparr>goals := [(plain_goal ''goal_100_0'' ''creation'' 3 100)
                                     \<lparr>g_dependencies := [''goal_100_1'']\<rparr>,
                                   plain_goal ''goal_100_1'' ''creation'' 3 100]\<rparr>)"
  by (simp add: add_dependency_def two_goals_def init_goal_system_def plain_goal_def get_goal_def
      modify_goal_def has_circular_dependency.simps)

theorem dependency_cycle_rejected_witness:
  "add_dependency two_goals ''goal_100_0'' ''goal_100_1'' =
     (True, two_goals\<lparr>goals := [(plain_goal ''goal_100_0'' ''creation'' 3 100)
                                     \<lparr>g_dependencies := [''goal_100_1'']\<rparr>,
                                   plain_goal ''goal_100_1'' ''creation'' 3 100]\<rparr>)
   \<and> fst (add_dependency
            (two_goals\<lparr>goals := [(plain_goal ''goal_100_0'' ''creation'' 3 100)
                                     \<lparr>g_dependencies := [''goal_100_1'']\<rparr>,
                                   plain_goal ''goal_100_1'' ''creation'' 3 100]\<rparr>)
            ''goal_100_1'' ''goal_100_0'') = False
   \<and> fst (add_dependency
            (two_goals\<lparr>goals := [(plain_goal ''goal_100_0'' ''creation'' 3 100)
                                     \<lparr>g_dependencies := [''goal_100_1'']\<rparr>,
                                   plain_goal ''goal_100_1'' ''creation'' 3 100]\<rparr>)
            ''goal_100_0'' ''goal_100_1'') = True"
  using dependency_cycle_rejected [OF two_goals_add] two_goals_add by simp

subsection \<open>The range and the growth of the progress\<close>

lemma calculated_progress_range:
  "0 \<le> calculated_progress subtasks \<and> calculated_progress subtasks \<le> 100"
proof -
  have "length (filter st_completed subtasks) \<le> length subtasks" by simp
  then have "real (length (filter st_completed subtasks)) \<le> real (length subtasks)"
    by simp
  then show ?thesis
    by (auto simp: calculated_progress_def Let_def divide_le_eq)
qed

lemma recompute_progress_id [simp]:
  "g_id (recompute_progress goal progress completed_subtasks now) = g_id goal"
  by (simp add: recompute_progress_def Let_def)

lemma recompute_progress_status [simp]:
  "g_status (recompute_progress goal progress completed_subtasks now) = g_status goal"
  by (simp add: recompute_progress_def Let_def)

lemma recompute_progress_range:
  "in_range (recompute_progress goal progress completed_subtasks now)"
  using calculated_progress_range
    [of "mark_subtasks completed_subtasks now (g_subtasks goal)"]
  by (auto simp: recompute_progress_def Let_def in_range_def)

lemma recompute_progress_lower:
  "max 0 (min 100 progress) \<le> g_progress (recompute_progress goal progress completed_subtasks now)"
  by (auto simp: recompute_progress_def Let_def max_def min_def)

lemma update_first_all:
  assumes "list_all Q xs" and "\<And>x. Q x \<Longrightarrow> P x \<Longrightarrow> Q (f x)"
  shows "list_all Q (update_first P f xs)"
  using assms by (induction xs) auto

lemma update_first_map:
  assumes "\<And>x. P x \<Longrightarrow> h (f x) = h x"
  shows "map h (update_first P f xs) = map h xs"
  using assms by (induction xs) auto

lemma modify_goal_range:
  assumes "progress_in_range st" and "\<And>g. in_range g \<Longrightarrow> in_range (f g)"
  shows "progress_in_range (modify_goal st i f)"
  using assms
  by (auto simp: progress_in_range_def modify_goal_def split: option.splits
      intro!: update_first_all)

lemma set_goal_range:
  "progress_in_range st \<Longrightarrow> progress_in_range (snd (set_goal st d ty p dl now))"
  by (simp add: set_goal_def progress_in_range_def in_range_def Let_def)

lemma decompose_goal_range:
  "progress_in_range st \<Longrightarrow> progress_in_range (snd (decompose_goal st i))"
  by (auto simp: decompose_goal_def Let_def in_range_def split: option.splits
      intro!: modify_goal_range)

lemma add_dependency_range:
  "progress_in_range st \<Longrightarrow> progress_in_range (snd (add_dependency st a b))"
  by (auto simp: add_dependency_def in_range_def split: option.splits
      intro!: modify_goal_range)

lemma remove1_all: "list_all Q xs \<Longrightarrow> list_all Q (remove1 x xs)"
  by (induction xs) auto

lemma update_progress_range:
  assumes "progress_in_range st"
  shows "progress_in_range (snd (update_progress st i p cs now))"
proof (cases "get_goal st i")
  case None
  with assms show ?thesis by (simp add: update_progress_def)
next
  case (Some goal)
  let ?g3 = "recompute_progress goal p cs now"
  let ?g4 = "?g3\<lparr>g_status := ''completed'', g_completed_at := Some now\<rparr>"
  have r3: "in_range ?g3" by (rule recompute_progress_range)
  then have r4: "in_range ?g4" and r5: "in_range (?g4\<lparr>g_updated_at := Some now\<rparr>)"
    and r6: "in_range (?g3\<lparr>g_updated_at := Some now\<rparr>)"
    by (simp_all add: in_range_def)
  have m4: "progress_in_range (modify_goal st i (\<lambda>g. ?g4))"
    using assms r4 by (intro modify_goal_range) simp_all
  have m6: "progress_in_range (modify_goal st i (\<lambda>g. ?g3\<lparr>g_updated_at := Some now\<rparr>))"
    using assms r6 by (intro modify_goal_range) simp_all
  show ?thesis
  proof (cases "g_status goal = ''completed''")
    case True
    with Some assms show ?thesis by (simp add: update_progress_def)
  next
    case False
    note active = this
    show ?thesis
    proof (cases "g_progress ?g3 \<ge> 100")
      case False
      with Some active m6 show ?thesis by (simp add: update_progress_def Let_def)
    next
      case True
      note full = this
      show ?thesis
      proof (cases "?g4 \<in> set (goals (modify_goal st i (\<lambda>g. ?g4)))")
        case False
        with Some active full m4 show ?thesis by (simp add: update_progress_def Let_def)
      next
        case True
        from m4 have "list_all in_range (remove1 ?g4 (goals (modify_goal st i (\<lambda>g. ?g4))))"
          and "list_all in_range (completed_goals (modify_goal st i (\<lambda>g. ?g4)))"
          by (simp_all add: progress_in_range_def remove1_all)
        with r5 True Some active full show ?thesis
          by (simp add: update_progress_def Let_def progress_in_range_def)
      qed
    qed
  qed
qed

lemma next_task_loop_range:
  "progress_in_range st \<Longrightarrow> progress_in_range (snd (next_task_loop st order))"
proof (induction order arbitrary: st)
  case Nil
  then show ?case by simp
next
  case (Cons i rest)
  let ?goal = "goals st ! i"
  let ?st1 = "if g_subtasks ?goal = [] then snd (decompose_goal st (g_id ?goal)) else st"
  have st1: "progress_in_range ?st1"
    using Cons.prems by (simp add: decompose_goal_range)
  show ?case
  proof (cases "any_dependency_open st (g_dependencies ?goal)")
    case (Inl e)
    with Cons.prems show ?thesis by simp
  next
    case (Inr open_dep)
    show ?thesis
    proof (cases open_dep)
      case True
      with Inr Cons show ?thesis by simp
    next
      case False
      show ?thesis
      proof (cases "find (\<lambda>subtask. \<not> st_completed subtask) (g_subtasks (goals ?st1 ! i))")
        case None
        with Inr False Cons.IH [OF st1] show ?thesis by (simp add: Let_def)
      next
        case (Some subtask)
        with Inr False st1 show ?thesis by (simp add: Let_def)
      qed
    qed
  qed
qed

lemma list_update_map_same:
  assumes "h v = h (xs ! pos)"
  shows "map h (xs[pos := v]) = map h xs"
proof (cases "pos < length xs")
  case True
  have "(map h xs)[pos := map h xs ! pos] = map h xs" by (rule list_update_id)
  with True assms show ?thesis by (simp add: map_update)
next
  case False
  then have "length xs \<le> pos" by simp
  then show ?thesis by (simp add: list_update_beyond)
qed

lemma distinct_map_remove1:
  assumes "distinct (map h xs)"
  shows "distinct (map h (remove1 x xs))"
proof -
  from assms have d: "distinct xs" and i: "inj_on h (set xs)"
    by (simp_all add: distinct_map)
  have "inj_on h (set (remove1 x xs))"
    using i set_remove1_subset by (rule inj_on_subset)
  with d show ?thesis by (simp add: distinct_map)
qed

lemma map_remove1_subset: "set (map h (remove1 x xs)) \<subseteq> set (map h xs)"
  using set_remove1_subset [of x xs] by auto

lemma review_loop_completed:
  "completed_goals (fst (review_loop now n pos (st, rr))) = completed_goals st"
  by (induction n arbitrary: pos st rr) (simp_all add: Let_def)

lemma review_loop_preserves:
  assumes upd: "\<And>xs pos v. P xs \<Longrightarrow> goal_key v = goal_key (xs ! pos) \<Longrightarrow> P (xs[pos := v])"
    and rem: "\<And>xs x. P xs \<Longrightarrow> P (remove1 x xs)"
  shows "P (goals st) \<Longrightarrow> P (goals (fst (review_loop now n pos (st, rr))))"
proof (induction n arbitrary: pos st rr)
  case 0
  then show ?case by simp
next
  case (Suc n)
  let ?goal = "goals st ! pos"
  let ?goal1 = "?goal\<lparr>g_review_count := g_review_count ?goal + 1, g_last_reviewed := Some now\<rparr>"
  have u: "\<And>v. goal_key v = goal_key ?goal \<Longrightarrow> P ((goals st)[pos := v])"
    using Suc.prems by (rule upd)
  have r: "P (remove1 ?goal1 ((goals st)[pos := ?goal1]))"
    by (rule rem, rule u) (simp add: goal_key_def)
  show ?case
    apply (simp add: Let_def)
    apply (intro conjI impI Suc.IH)
      apply (simp_all add: r)
     apply (rule u; simp add: goal_key_def)+
    done
qed

lemma get_goal_Some:
  "get_goal st i = Some g \<Longrightarrow> g \<in> set (goals st @ completed_goals st) \<and> g_id g = i"
  by (auto simp: get_goal_def split: option.splits dest: find_id)

lemma list_update_in_range:
  assumes "list_all in_range xs" and "goal_key v = goal_key (xs ! pos)"
  shows "list_all in_range (xs[pos := v])"
proof (cases "pos < length xs")
  case True
  with assms(1) have "in_range (xs ! pos)" by (simp add: list_all_length)
  with assms(2) have "in_range v" by (simp add: in_range_def goal_key_def)
  with assms(1) show ?thesis
    using set_update_subset_insert [of xs pos v] by (auto simp: list_all_iff)
next
  case False
  then have "length xs \<le> pos" by simp
  with assms(1) show ?thesis by (simp add: list_update_beyond)
qed

lemma review_goals_range:
  assumes "progress_in_range st"
  shows "progress_in_range (snd (review_goals st now))"
proof -
  let ?rr0 = "\<lparr>reviewed_goals = 0, priority_adjustments = 0, stalled_goals = 0,
               goals_suggested = 0, removed_goals = 0\<rparr>"
  obtain st1 rr1 where loop: "review_loop now (length (goals st)) 0 (st, ?rr0) = (st1, rr1)"
    by fastforce
  have "list_all in_range (goals (fst (review_loop now (length (goals st)) 0 (st, ?rr0))))"
    using assms
    by (intro review_loop_preserves [where P = "list_all in_range"] list_update_in_range
        remove1_all) (simp_all add: progress_in_range_def)
  moreover have "completed_goals (fst (review_loop now (length (goals st)) 0 (st, ?rr0)))
                 = completed_goals st"
    by (rule review_loop_completed)
  ultimately have "progress_in_range st1"
    using assms loop by (simp add: progress_in_range_def)
  then show ?thesis
    using assms loop
    by (simp add: review_goals_def Let_def progress_in_range_def split: list.splits)
qed

lemma apply_goal_op_range:
  "progress_in_range st \<Longrightarrow> progress_in_range (apply_goal_op st c)"
proof (cases c)
  case (Pair now op)
  assume "progress_in_range st"
  then show ?thesis
    unfolding Pair
    by (cases op)
      (simp_all add: set_goal_range decompose_goal_range update_progress_range
        add_dependency_range next_task_loop_range get_next_task_def review_goals_range)
qed

lemma run_goal_ops_range:
  "progress_in_range st \<Longrightarrow> progress_in_range (run_goal_ops st calls)"
  unfolding run_goal_ops_def
  by (induction calls arbitrary: st) (simp_all add: apply_goal_op_range)

lemma init_range: "progress_in_range (init_goal_system t0)"
  by (simp add: progress_in_range_def init_goal_system_def)

lemma update_progress_success:
  assumes "update_progress st i p cs now = (Inr (UpdateSuccess gid old new completed), st')"
  obtains goal where "get_goal st i = Some goal" "g_status goal \<noteq> ''completed''"
    "old = g_progress goal" "new = g_progress (recompute_progress goal p cs now)"
    "gid = i" "\<exists>g\<in>set (goals st' @ completed_goals st'). g_id g = i \<and> g_progress g = new"
proof (cases "get_goal st i")
  case None
  with assms show ?thesis by (simp add: update_progress_def)
next
  case (Some goal)
  let ?g3 = "recompute_progress goal p cs now"
  let ?g4 = "?g3\<lparr>g_status := ''completed'', g_completed_at := Some now\<rparr>"
  let ?g6 = "?g3\<lparr>g_updated_at := Some now\<rparr>"
  from Some have id: "g_id goal = i" by (simp add: get_goal_Some)
  from assms Some have active: "g_status goal \<noteq> ''completed''"
    by (auto simp: update_progress_def split: if_splits)
  show ?thesis
  proof (cases "g_progress ?g3 \<ge> 100")
    case False
    with assms Some active have res: "old = g_progress goal" "new = g_progress ?g3" "gid = i"
      and st': "st' = modify_goal st i (\<lambda>g. ?g6)"
      by (auto simp add: update_progress_def Let_def)
    have "get_goal st' i = Some ?g6"
      unfolding st' using Some id by (simp add: get_goal_modify_same)
    then have "?g6 \<in> set (goals st' @ completed_goals st')"
      using get_goal_Some by blast
    then have "\<exists>g\<in>set (goals st' @ completed_goals st'). g_id g = i \<and> g_progress g = new"
      using id res by (intro bexI [of _ ?g6]) simp_all
    with Some active res that show ?thesis by blast
  next
    case True
    note full = this
    show ?thesis
    proof (cases "?g4 \<in> set (goals (modify_goal st i (\<lambda>g. ?g4)))")
      case False
      with assms Some active full show ?thesis by (simp add: update_progress_def Let_def)
    next
      case True
      with assms Some active full
      have res: "old = g_progress goal" "new = g_progress ?g3" "gid = i"
        and st': "completed_goals st' =
                    completed_goals (modify_goal st i (\<lambda>g. ?g4)) @ [?g4\<lparr>g_updated_at := Some now\<rparr>]"
        by (auto simp add: update_progress_def Let_def)
      have "\<exists>g\<in>set (goals st' @ completed_goals st'). g_id g = i \<and> g_progress g = new"
        using id res st' by (intro bexI [of _ "?g4\<lparr>g_updated_at := Some now\<rparr>"]) simp_all
      with Some active res that show ?thesis by blast
    qed
  qed
qed

lemma mark_subtask_flags:
  "map (\<lambda>s. (st_id s, st_completed s)) (mark_subtask subtask_id now subtasks) =
   map (\<lambda>s. (st_id s, st_completed s \<or> st_id s = subtask_id)) subtasks"
  by (induction subtasks) (auto simp: mark_subtask_def)

lemma mark_subtasks_flags:
  "map (\<lambda>s. (st_id s, st_completed s)) (mark_subtasks completed_subtasks now subtasks) =
   map (\<lambda>s. (st_id s, st_completed s \<or> st_id s \<in> set completed_subtasks)) subtasks"
proof (induction completed_subtasks arbitrary: subtasks)
  case Nil
  then show ?case by (simp add: mark_subtasks_def)
next
  case (Cons subtask_id rest)
  have "mark_subtasks (subtask_id # rest) now subtasks =
        mark_subtasks rest now (mark_subtask subtask_id now subtasks)"
    by (simp add: mark_subtasks_def)
  moreover
  have "map (\<lambda>s. (st_id s, st_completed s \<or> st_id s \<in> set rest))
            (mark_subtask subtask_id now subtasks) =
        map (\<lambda>p. (fst p, snd p \<or> fst p \<in> set rest))
            (map (\<lambda>s. (st_id s, st_completed s)) (mark_subtask subtask_id now subtasks))"
    by simp
  ultimately show ?case
    by (simp add: Cons.IH mark_subtask_flags del: map_map) (auto simp: comp_def)
qed

lemma mark_subtasks_length:
  "length (mark_subtasks completed_subtasks now subtasks) = length subtasks"
  using arg_cong [OF mark_subtasks_flags [of completed_subtasks now subtasks], of length]
  by simp

lemma mark_subtasks_finished:
  "length (filter st_completed (mark_subtasks completed_subtasks now subtasks)) =
   length (filter (\<lambda>s. st_completed s \<or> st_id s \<in> set completed_subtasks) subtasks)"
proof -
  have "length (filter st_completed (mark_subtasks completed_subtasks now subtasks)) =
        length (filter snd (map (\<lambda>s. (st_id s, st_completed s))
                                 (mark_subtasks completed_subtasks now subtasks)))"
    by (simp add: filter_map comp_def)
  also have "\<dots> = length (filter snd (map (\<lambda>s. (st_id s, st_completed s \<or> st_id s \<in> set completed_subtasks))
                                          subtasks))"
    by (simp only: mark_subtasks_flags)
  also have "\<dots> = length (filter (\<lambda>s. st_completed s \<or> st_id s \<in> set completed_subtasks) subtasks)"
    by (simp add: filter_map comp_def)
  finally show ?thesis .
qed

lemma recompute_progress_formula:
  "g_progress (recompute_progress goal progress completed_subtasks now) =
   spec_progress goal progress completed_subtasks"
proof -
  have e: "(mark_subtasks completed_subtasks now (g_subtasks goal) = []) = (g_subtasks goal = [])"
    using mark_subtasks_length [of completed_subtasks now "g_subtasks goal"]
    by (metis length_0_conv)
  show ?thesis
    by (simp add: recompute_progress_def spec_progress_def Let_def e calculated_progress_def
        mark_subtasks_length mark_subtasks_finished)
qed

text \<open>
  Claim C2, as the code has it. In every store reached from the initial one by any
  sequence of operations, the progress of every goal lies between 0 and 100. A successful
  \<open>update_progress\<close> stores the larger of the clamped report and the share of completed
  subtasks (\<open>spec_progress\<close>): that value lies between 0 and 100 and is not below the
  progress the goal had whenever the report is not below it. (A report below the current
  progress can lower the stored value.)
\<close>

theorem progress_bounded_and_report_monotone:
  "progress_in_range (run_goal_ops (init_goal_system t0) calls)
   \<and> (update_progress (run_goal_ops (init_goal_system t0) calls) goal_id progress
         completed_subtasks now = (Inr (UpdateSuccess gid old new completed), st') \<longrightarrow>
       (\<exists>goal. get_goal (run_goal_ops (init_goal_system t0) calls) goal_id = Some goal
                \<and> old = g_progress goal
                \<and> new = spec_progress goal progress completed_subtasks)
       \<and> (\<exists>g\<in>set (goals st' @ completed_goals st'). g_id g = goal_id \<and> g_progress g = new)
       \<and> 0 \<le> new \<and> new \<le> 100
       \<and> (old \<le> progress \<longrightarrow> old \<le> new)
       \<and> progress_in_range st')"
proof -
  let ?st = "run_goal_ops (init_goal_system t0) calls"
  have range: "progress_in_range ?st"
    by (intro run_goal_ops_range init_range)
  have "(\<exists>goal. get_goal ?st goal_id = Some goal \<and> old = g_progress goal
                \<and> new = spec_progress goal progress completed_subtasks)
       \<and> (\<exists>g\<in>set (goals st' @ completed_goals st'). g_id g = goal_id \<and> g_progress g = new)
       \<and> 0 \<le> new \<and> new \<le> 100
       \<and> (old \<le> progress \<longrightarrow> old \<le> new)
       \<and> progress_in_range st'"
    if upd: "update_progress ?st goal_id progress completed_subtasks now =
               (Inr (UpdateSuccess gid old new completed), st')"
  proof -
    from update_progress_range [OF range, of goal_id progress completed_subtasks now] upd
    have range': "progress_in_range st'" by simp
    from upd obtain goal where goal: "get_goal ?st goal_id = Some goal"
      and old: "old = g_progress goal"
      and new: "new = g_progress (recompute_progress goal progress completed_subtasks now)"
      and stored: "\<exists>g\<in>set (goals st' @ completed_goals st'). g_id g = goal_id \<and> g_progress g = new"
      by (rule update_progress_success)
    from new have formula: "new = spec_progress goal progress completed_subtasks"
      by (simp add: recompute_progress_formula)
    from recompute_progress_range [of goal progress completed_subtasks now] new
    have bounds: "0 \<le> new \<and> new \<le> 100" by (simp add: in_range_def)
    from goal have "goal \<in> set (goals ?st @ completed_goals ?st)"
      using get_goal_Some by blast
    with range have "in_range goal" by (simp add: progress_in_range_def list_all_iff)
    with old have "old \<le> 100" by (simp add: in_range_def)
    moreover have "max 0 (min 100 progress) \<le> new"
      unfolding new by (rule recompute_progress_lower)
    ultimately have mono: "old \<le> progress \<longrightarrow> old \<le> new" by auto
    from range' bounds mono goal old formula stored show ?thesis by blast
  qed
  with range show ?thesis by blast
qed

lemma goal_id_100: "str_int (py_int 100) = ''100''" "decimal 0 = ''0''"
  by (simp_all add: str_int_def py_int_def decimal.simps digit_char_def)

lemma progress_store_value:
  "progress_store =
     (init_goal_system 0)\<lparr>goals :=
        [\<lparr>g_id = ''goal_100_0'', g_description = ''learn Isabelle'',
          g_type = ''skill_development'', g_priority = 3, g_status = ''active'',
          g_progress = 50, g_created_at = 100, g_deadline = None, g_subtasks = [],
          g_dependencies = [], g_review_count = 0, g_last_reviewed = None,
          g_completed_at = None, g_updated_at = Some 101\<rparr>]\<rparr>"
  by (simp add: progress_store_def run_goal_ops_def set_goal_def new_goal_id_def goal_id_100
      goal_types_def
      init_goal_system_def update_progress_def get_goal_def recompute_progress_def
      mark_subtasks_def modify_goal_def Let_def)

lemma lower_report:
  "update_progress progress_store ''goal_100_0'' 20 [] 102 =
     (Inr (UpdateSuccess ''goal_100_0'' 50 20 False),
      progress_store\<lparr>goals := [(hd (goals progress_store))\<lparr>g_progress := 20, g_updated_at := Some 102\<rparr>]\<rparr>)"
  by (simp add: progress_store_value update_progress_def get_goal_def recompute_progress_def
      mark_subtasks_def modify_goal_def Let_def init_goal_system_def)

text \<open>
  The claim as stated fails: a goal at progress 50 to which the progress 20 is reported is
  stored with progress 20.
\<close>

theorem progress_decrease_counterexample:
  "map g_progress (goals progress_store) = [50]
   \<and> map g_progress (goals (snd (update_progress progress_store ''goal_100_0'' 20 [] 102))) = [20]
   \<and> \<not> (g_progress (hd (goals progress_store))
          \<le> g_progress (hd (goals (snd (update_progress progress_store ''goal_100_0'' 20 [] 102)))))"
  by (simp add: lower_report) (simp add: progress_store_value)

lemma subtask_report:
  "fst (update_progress subtask_store ''goal_100_0'' 10
          [''goal_100_0_sub1'', ''goal_100_0_sub2''] 102)
   = Inr (UpdateSuccess ''goal_100_0'' 0 50 False)"
  by (simp add: subtask_store_def run_goal_ops_def set_goal_def new_goal_id_def goal_id_100
      goal_types_def init_goal_system_def decompose_goal_def make_subtasks_def
      subtask_phrases_def decimal.simps digit_char_def update_progress_def get_goal_def
      recompute_progress_def mark_subtasks_def mark_subtask_def calculated_progress_def
      modify_goal_def Let_def)

theorem progress_bounded_and_report_monotone_witness:
  "update_progress subtask_store ''goal_100_0'' 10 [''goal_100_0_sub1'', ''goal_100_0_sub2''] 102 =
     (Inr (UpdateSuccess ''goal_100_0'' 0 50 False),
      snd (update_progress subtask_store ''goal_100_0'' 10
             [''goal_100_0_sub1'', ''goal_100_0_sub2''] 102))
   \<and> progress_in_range subtask_store
   \<and> (\<exists>goal. get_goal subtask_store ''goal_100_0'' = Some goal \<and> 0 = g_progress goal
         \<and> length (g_subtasks goal) = 4
         \<and> 50 = spec_progress goal 10 [''goal_100_0_sub1'', ''goal_100_0_sub2''])
   \<and> (\<exists>g\<in>set (goals (snd (update_progress subtask_store ''goal_100_0'' 10
                               [''goal_100_0_sub1'', ''goal_100_0_sub2''] 102))
                 @ completed_goals (snd (update_progress subtask_store ''goal_100_0'' 10
                               [''goal_100_0_sub1'', ''goal_100_0_sub2''] 102))).
         g_id g = ''goal_100_0'' \<and> g_progress g = 50)
   \<and> progress_in_range (snd (update_progress subtask_store ''goal_100_0'' 10
                               [''goal_100_0_sub1'', ''goal_100_0_sub2''] 102))"
proof -
  let ?cs = "[''goal_100_0_sub1'', ''goal_100_0_sub2'']"
  have h: "update_progress subtask_store ''goal_100_0'' 10 ?cs 102 =
     (Inr (UpdateSuccess ''goal_100_0'' 0 50 False),
      snd (update_progress subtask_store ''goal_100_0'' 10 ?cs 102))"
    using subtask_report by (simp add: prod_eq_iff)
  have "length (g_subtasks goal) = 4" if "get_goal subtask_store ''goal_100_0'' = Some goal" for goal
    using that
    by (auto simp add: subtask_store_def run_goal_ops_def set_goal_def new_goal_id_def goal_id_100
        goal_types_def init_goal_system_def decompose_goal_def make_subtasks_def
        subtask_phrases_def get_goal_def modify_goal_def Let_def)
  with progress_bounded_and_report_monotone
    [of 0 "[(100, SetGoal ''learn Isabelle'' ''skill_development'' 3 None),
            (101, DecomposeGoal ''goal_100_0'')]"
        "''goal_100_0''" 10 ?cs 102 "''goal_100_0''" 0 50 False
        "snd (update_progress subtask_store ''goal_100_0'' 10 ?cs 102)"] h
  show ?thesis
    unfolding subtask_store_def [symmetric] by blast
qed

subsection \<open>Completed goals\<close>

lemma well_formed_cong:
  assumes "map g_id (goals a) = map g_id (goals b)"
    and "map g_id (completed_goals a) = map g_id (completed_goals b)"
    and "map g_status (goals a) = map g_status (goals b)"
    and "map g_status (completed_goals a) = map g_status (completed_goals b)"
  shows "well_formed a = well_formed b"
  unfolding well_formed_def using assms by simp

lemma modify_goal_maps:
  assumes "\<And>x. g_id x = i \<Longrightarrow> h (f x) = h x"
  shows "map h (goals (modify_goal st i f)) = map h (goals st)"
    and "map h (completed_goals (modify_goal st i f)) = map h (completed_goals st)"
  using assms by (auto simp: modify_goal_def update_first_map split: option.splits)

lemma modify_goal_well_formed:
  assumes "\<And>x. g_id x = i \<Longrightarrow> g_id (f x) = g_id x \<and> g_status (f x) = g_status x"
  shows "well_formed (modify_goal st i f) = well_formed st"
  using assms by (intro well_formed_cong modify_goal_maps) auto

lemma decompose_goal_well_formed:
  "well_formed st \<Longrightarrow> well_formed (snd (decompose_goal st i))"
  by (auto simp: decompose_goal_def Let_def modify_goal_well_formed split: option.splits)

lemma add_dependency_well_formed:
  "well_formed st \<Longrightarrow> well_formed (snd (add_dependency st a b))"
  by (auto simp: add_dependency_def modify_goal_well_formed split: option.splits)

lemma next_task_loop_well_formed:
  "well_formed st \<Longrightarrow> well_formed (snd (next_task_loop st order))"
proof (induction order arbitrary: st)
  case Nil
  then show ?case by simp
next
  case (Cons i rest)
  let ?goal = "goals st ! i"
  let ?st1 = "if g_subtasks ?goal = [] then snd (decompose_goal st (g_id ?goal)) else st"
  have st1: "well_formed ?st1"
    using Cons.prems by (simp add: decompose_goal_well_formed)
  show ?case
  proof (cases "any_dependency_open st (g_dependencies ?goal)")
    case (Inl e)
    with Cons.prems show ?thesis by simp
  next
    case (Inr open_dep)
    show ?thesis
    proof (cases open_dep)
      case True
      with Inr Cons show ?thesis by simp
    next
      case False
      show ?thesis
      proof (cases "find (\<lambda>subtask. \<not> st_completed subtask) (g_subtasks (goals ?st1 ! i))")
        case None
        with Inr False Cons.IH [OF st1] show ?thesis by (simp add: Let_def)
      next
        case (Some subtask)
        with Inr False st1 show ?thesis by (simp add: Let_def)
      qed
    qed
  qed
qed

lemma set_goal_well_formed:
  assumes "well_formed st" and "d \<noteq> [] \<longrightarrow> new_goal_id st now \<notin> stored_ids st"
  shows "well_formed (snd (set_goal st d ty p dl now))"
  using assms
  by (auto simp: set_goal_def Let_def well_formed_def stored_ids_def)

lemma distinct_map_remove1_append:
  fixes x :: 'a and h :: "'a \<Rightarrow> 'b"
  assumes "distinct (map h xs @ ys)"
  shows "distinct (map h (remove1 x xs) @ ys)"
proof -
  have "set (map h (remove1 x xs)) \<subseteq> set (map h xs)" by (rule map_remove1_subset)
  with assms show ?thesis
    by (auto simp: distinct_map_remove1)
qed

lemma review_goals_well_formed:
  assumes "well_formed st"
  shows "well_formed (snd (review_goals st now))"
proof -
  let ?rr0 = "\<lparr>reviewed_goals = 0, priority_adjustments = 0, stalled_goals = 0,
               goals_suggested = 0, removed_goals = 0\<rparr>"
  let ?st1 = "fst (review_loop now (length (goals st)) 0 (st, ?rr0))"
  let ?P = "\<lambda>ys. distinct (map g_id ys @ map g_id (completed_goals st))
                 \<and> ''completed'' \<notin> set (map g_status ys)"
  have c: "completed_goals ?st1 = completed_goals st"
    by (rule review_loop_completed)
  have "?P (goals ?st1)"
  proof (rule review_loop_preserves [where P = ?P])
    fix xs pos v
    assume "?P xs" and k: "goal_key v = goal_key (xs ! pos)"
    moreover from k have "map g_id (xs[pos := v]) = map g_id xs"
      by (intro list_update_map_same) (simp add: goal_key_def)
    moreover from k have "map g_status (xs[pos := v]) = map g_status xs"
      by (intro list_update_map_same) (simp add: goal_key_def)
    ultimately show "?P (xs[pos := v])" by simp
  next
    fix xs x
    assume p: "?P xs"
    then have "distinct (map g_id (remove1 x xs) @ map g_id (completed_goals st))"
      by (intro distinct_map_remove1_append) simp
    moreover have "set (map g_status (remove1 x xs)) \<subseteq> set (map g_status xs)"
      by (rule map_remove1_subset)
    ultimately show "?P (remove1 x xs)" using p by auto
  next
    show "?P (goals st)" using assms by (simp add: well_formed_def)
  qed
  with c assms have "well_formed ?st1" by (simp add: well_formed_def)
  then have "well_formed (?st1\<lparr>next_review_time := now + review_interval_hours ?st1 * 3600\<rparr>)"
    by (simp add: well_formed_def)
  with \<open>well_formed ?st1\<close> assms show ?thesis
    by (simp add: review_goals_def Let_def split_beta split: list.splits)
qed

lemma find_update_first_found:
  "find P xs = Some x \<Longrightarrow> f x \<in> set (update_first P f xs)"
  by (induction xs) (auto split: if_splits)

lemma update_first_map_found:
  "find P xs = Some x \<Longrightarrow> h (f x) = h x \<Longrightarrow> map h (update_first P f xs) = map h xs"
  by (induction xs) (auto split: if_splits)

lemma update_first_set_found:
  "find P xs = Some x \<Longrightarrow> set (update_first P f xs) \<subseteq> insert (f x) (set xs)"
  by (induction xs) (auto split: if_splits)

lemma wf_completed_status:
  assumes "well_formed st" and "g \<in> set (completed_goals st)"
  shows "g_status g = ''completed''"
proof -
  from assms(1) have "g_status ` set (completed_goals st) \<subseteq> {''completed''}"
    by (simp add: well_formed_def)
  with assms(2) show ?thesis by blast
qed

lemma wf_active_status:
  assumes "well_formed st" and "g \<in> set (goals st)"
  shows "g_status g \<noteq> ''completed''"
proof -
  from assms(1) have "''completed'' \<notin> g_status ` set (goals st)"
    by (simp add: well_formed_def)
  with assms(2) show ?thesis by (metis imageI)
qed

lemma wf_disjoint:
  assumes "well_formed st" and "i \<in> g_id ` set (completed_goals st)"
  shows "i \<notin> g_id ` set (goals st)"
proof -
  from assms(1) have "g_id ` set (goals st) \<inter> g_id ` set (completed_goals st) = {}"
    by (simp add: well_formed_def)
  with assms(2) show ?thesis by blast
qed

lemma get_goal_active:
  assumes "well_formed st" and "get_goal st i = Some g" and "g_status g \<noteq> ''completed''"
  shows "find (\<lambda>g. g_id g = i) (goals st) = Some g"
proof (cases "find (\<lambda>g. g_id g = i) (goals st)")
  case None
  with assms(2) have "find (\<lambda>g. g_id g = i) (completed_goals st) = Some g"
    by (simp add: get_goal_def)
  then have "g \<in> set (completed_goals st)" by (rule find_id [THEN conjunct1])
  with assms(1) have "g_status g = ''completed''" by (rule wf_completed_status)
  with assms(3) show ?thesis by simp
next
  case (Some a)
  with assms(2) show ?thesis by (simp add: get_goal_def)
qed

lemma get_goal_completed:
  assumes "well_formed st" and "i \<in> g_id ` set (completed_goals st)"
  shows "\<exists>g. get_goal st i = Some g \<and> g_status g = ''completed''"
proof -
  from assms have "i \<notin> g_id ` set (goals st)" by (rule wf_disjoint)
  then have none: "find (\<lambda>g. g_id g = i) (goals st) = None" by (simp add: find_id_none)
  from assms(2) have "find (\<lambda>g. g_id g = i) (completed_goals st) \<noteq> None"
    by (simp add: find_id_none)
  then obtain g where g: "find (\<lambda>g. g_id g = i) (completed_goals st) = Some g"
    by blast
  then have "g \<in> set (completed_goals st)" by (rule find_id [THEN conjunct1])
  with assms(1) have "g_status g = ''completed''" by (rule wf_completed_status)
  with none g show ?thesis by (simp add: get_goal_def)
qed

lemma completed_goal_found:
  assumes "well_formed st" and "get_goal st i = Some g" and "g_status g = ''completed''"
  shows "i \<in> g_id ` set (completed_goals st)"
proof (cases "find (\<lambda>g. g_id g = i) (goals st)")
  case None
  with assms(2) have "find (\<lambda>g. g_id g = i) (completed_goals st) = Some g"
    by (simp add: get_goal_def)
  then have "g \<in> set (completed_goals st)" and "g_id g = i"
    by (rule find_id [THEN conjunct1], rule find_id [THEN conjunct2])
  then show ?thesis by blast
next
  case (Some a)
  with assms(2) have "a = g" by (simp add: get_goal_def)
  with Some have "find (\<lambda>g. g_id g = i) (goals st) = Some g" by simp
  then have "g \<in> set (goals st)" by (rule find_id [THEN conjunct1])
  with assms(1) have "g_status g \<noteq> ''completed''" by (rule wf_active_status)
  with assms(3) show ?thesis by simp
qed

lemma move_to_completed_distinct:
  assumes "distinct (map h xs @ map h ys)" and "x \<in> set xs" and "h x' = h x"
  shows "distinct (map h (remove1 x xs) @ map h (ys @ [x']))"
proof -
  from assms(1) have d: "distinct xs" and i: "inj_on h (set xs)"
    by (simp_all add: distinct_map)
  have "h x \<notin> h ` set (remove1 x xs)"
  proof
    assume "h x \<in> h ` set (remove1 x xs)"
    then obtain z where z: "z \<in> set (remove1 x xs)" and hz: "h z = h x" by auto
    from z d have "z \<in> set xs" and "z \<noteq> x" by simp_all
    with i hz assms(2) show False by (auto dest: inj_onD)
  qed
  moreover have "h x \<notin> set (map h ys)" using assms(1) assms(2) by auto
  moreover have "distinct (map h (remove1 x xs) @ map h ys)"
    using assms(1) by (rule distinct_map_remove1_append)
  ultimately show ?thesis using assms(3) by auto
qed

lemma move_goal_well_formed:
  assumes wf: "well_formed st" and found: "find (\<lambda>g. g_id g = i) (goals st) = Some goal"
    and id4: "g_id g4 = i" and id5: "g_id g5 = i" and s5: "g_status g5 = ''completed''"
  shows "g4 \<in> set (update_first (\<lambda>g. g_id g = i) (\<lambda>g. g4) (goals st))"
    and "well_formed
          (st\<lparr>goals := remove1 g4 (update_first (\<lambda>g. g_id g = i) (\<lambda>g. g4) (goals st)),
              completed_goals := completed_goals st @ [g5]\<rparr>)"
proof -
  let ?G1 = "update_first (\<lambda>g. g_id g = i) (\<lambda>g. g4) (goals st)"
  from found have id: "g_id goal = i" by (rule find_id [THEN conjunct2])
  show in1: "g4 \<in> set ?G1" using found by (rule find_update_first_found)
  have ids1: "map g_id ?G1 = map g_id (goals st)"
    using found id id4 by (simp add: update_first_map_found)
  have d: "distinct (map g_id (remove1 g4 ?G1) @ map g_id (completed_goals st @ [g5]))"
  proof (rule move_to_completed_distinct)
    show "distinct (map g_id ?G1 @ map g_id (completed_goals st))"
      using wf by (simp add: ids1 well_formed_def)
    show "g4 \<in> set ?G1" by (rule in1)
    show "g_id g5 = g_id g4" by (simp add: id4 id5)
  qed
  from wf have "distinct (map g_id (goals st))" by (simp add: well_formed_def)
  then have "distinct (map g_id ?G1)" by (simp add: ids1)
  then have dG1: "distinct ?G1" by (simp add: distinct_map)
  have sub: "set ?G1 \<subseteq> insert g4 (set (goals st))"
    using found by (rule update_first_set_found)
  have "set (remove1 g4 ?G1) = set ?G1 - {g4}"
    using dG1 by (rule set_remove1_eq)
  with sub have "set (remove1 g4 ?G1) \<subseteq> set (goals st)" by blast
  then have "g_status ` set (remove1 g4 ?G1) \<subseteq> g_status ` set (goals st)" by blast
  moreover from wf have "''completed'' \<notin> g_status ` set (goals st)"
    by (simp add: well_formed_def)
  ultimately have a: "''completed'' \<notin> g_status ` set (remove1 g4 ?G1)" by blast
  from wf have "g_status ` set (completed_goals st) \<subseteq> {''completed''}"
    by (simp add: well_formed_def)
  with s5 have c: "g_status ` set (completed_goals st @ [g5]) \<subseteq> {''completed''}" by simp
  from d a c
  show "well_formed (st\<lparr>goals := remove1 g4 ?G1, completed_goals := completed_goals st @ [g5]\<rparr>)"
    by (simp add: well_formed_def)
qed

lemma keep_goal_well_formed:
  assumes wf: "well_formed st" and found: "find (\<lambda>g. g_id g = i) (goals st) = Some goal"
    and id6: "g_id g6 = i" and s6: "g_status g6 = g_status goal"
  shows "well_formed (st\<lparr>goals := update_first (\<lambda>g. g_id g = i) (\<lambda>g. g6) (goals st)\<rparr>)"
proof -
  from found have id: "g_id goal = i" by (rule find_id [THEN conjunct2])
  have "map g_id (update_first (\<lambda>g. g_id g = i) (\<lambda>g. g6) (goals st)) = map g_id (goals st)"
    using found id id6 by (simp add: update_first_map_found)
  moreover
  have "map g_status (update_first (\<lambda>g. g_id g = i) (\<lambda>g. g6) (goals st)) = map g_status (goals st)"
    using found s6 by (simp add: update_first_map_found)
  ultimately show ?thesis using wf by (simp add: well_formed_def)
qed

lemma update_progress_well_formed:
  assumes wf: "well_formed st"
  shows "well_formed (snd (update_progress st i p cs now))"
proof (cases "get_goal st i")
  case None
  with wf show ?thesis by (simp add: update_progress_def)
next
  case (Some goal)
  define g3 where "g3 = recompute_progress goal p cs now"
  define g4 where "g4 = g3\<lparr>g_status := ''completed'', g_completed_at := Some now\<rparr>"
  define g5 where "g5 = g4\<lparr>g_updated_at := Some now\<rparr>"
  define g6 where "g6 = g3\<lparr>g_updated_at := Some now\<rparr>"
  show ?thesis
  proof (cases "g_status goal = ''completed''")
    case True
    with Some wf show ?thesis by (simp add: update_progress_def)
  next
    case False
    note active = this
    from get_goal_active [OF wf Some active]
    have found: "find (\<lambda>g. g_id g = i) (goals st) = Some goal" .
    then have id: "g_id goal = i" by (rule find_id [THEN conjunct2])
    have mod: "\<And>f. modify_goal st i f = st\<lparr>goals := update_first (\<lambda>g. g_id g = i) f (goals st)\<rparr>"
      using found by (simp add: modify_goal_def)
    have ids: "g_id g4 = i" "g_id g5 = i" "g_id g6 = i"
      and sts: "g_status g5 = ''completed''" "g_status g6 = g_status goal"
      by (simp_all add: g3_def g4_def g5_def g6_def id)
    show ?thesis
    proof (cases "g_progress g3 \<ge> 100")
      case False
      have "snd (update_progress st i p cs now) = modify_goal st i (\<lambda>g. g6)"
        using Some active False
        by (simp add: update_progress_def Let_def g3_def [symmetric] g6_def [symmetric])
      with keep_goal_well_formed [OF wf found ids(3) sts(2)] show ?thesis by (simp add: mod)
    next
      case True
      from move_goal_well_formed [OF wf found ids(1) ids(2) sts(1)]
      have in1: "g4 \<in> set (goals (modify_goal st i (\<lambda>g. g4)))"
        and wf': "well_formed
          (st\<lparr>goals := remove1 g4 (update_first (\<lambda>g. g_id g = i) (\<lambda>g. g4) (goals st)),
              completed_goals := completed_goals st @ [g5]\<rparr>)"
        by (simp_all add: mod)
      have "snd (update_progress st i p cs now) =
              st\<lparr>goals := remove1 g4 (update_first (\<lambda>g. g_id g = i) (\<lambda>g. g4) (goals st)),
                 completed_goals := completed_goals st @ [g5]\<rparr>"
        using Some active True in1
        by (simp add: update_progress_def Let_def g3_def [symmetric] g4_def [symmetric]
            g5_def [symmetric] mod)
      with wf' show ?thesis by simp
    qed
  qed
qed

lemma modify_goal_completed_ids:
  assumes "\<And>x. g_id x = i \<Longrightarrow> g_id (f x) = g_id x"
  shows "completed_ids (modify_goal st i f) = completed_ids st"
proof -
  from assms have "map g_id (completed_goals (modify_goal st i f)) = map g_id (completed_goals st)"
    by (rule modify_goal_maps(2))
  then have "set (map g_id (completed_goals (modify_goal st i f)))
             = set (map g_id (completed_goals st))" by simp
  then show ?thesis by (simp add: completed_ids_def)
qed

lemma decompose_goal_completed_ids:
  "completed_ids (snd (decompose_goal st i)) = completed_ids st"
  by (auto simp: decompose_goal_def Let_def modify_goal_completed_ids split: option.splits)

lemma add_dependency_completed_ids:
  "completed_ids (snd (add_dependency st a b)) = completed_ids st"
  by (auto simp: add_dependency_def modify_goal_completed_ids split: option.splits)

lemma next_task_loop_completed_ids:
  "completed_ids (snd (next_task_loop st order)) = completed_ids st"
proof (induction order arbitrary: st)
  case Nil
  then show ?case by simp
next
  case (Cons i rest)
  let ?goal = "goals st ! i"
  let ?st1 = "if g_subtasks ?goal = [] then snd (decompose_goal st (g_id ?goal)) else st"
  have st1: "completed_ids ?st1 = completed_ids st"
    by (simp add: decompose_goal_completed_ids)
  show ?case
  proof (cases "any_dependency_open st (g_dependencies ?goal)")
    case (Inl e)
    then show ?thesis by simp
  next
    case (Inr open_dep)
    show ?thesis
    proof (cases open_dep)
      case True
      with Inr Cons show ?thesis by simp
    next
      case False
      show ?thesis
      proof (cases "find (\<lambda>subtask. \<not> st_completed subtask) (g_subtasks (goals ?st1 ! i))")
        case None
        with Inr False Cons.IH [of ?st1] st1 show ?thesis by (simp add: Let_def)
      next
        case (Some subtask)
        with Inr False st1 show ?thesis by (simp add: Let_def)
      qed
    qed
  qed
qed

lemma review_goals_completed_ids:
  "completed_ids (snd (review_goals st now)) = completed_ids st"
proof -
  let ?rr0 = "\<lparr>reviewed_goals = 0, priority_adjustments = 0, stalled_goals = 0,
               goals_suggested = 0, removed_goals = 0\<rparr>"
  have "completed_goals (fst (review_loop now (length (goals st)) 0 (st, ?rr0)))
        = completed_goals st"
    by (rule review_loop_completed)
  then show ?thesis
    by (simp add: review_goals_def Let_def split_beta completed_ids_def split: list.splits)
qed

lemma update_progress_completed_ids:
  "completed_ids st \<subseteq> completed_ids (snd (update_progress st i p cs now))"
proof (cases "get_goal st i")
  case None
  then show ?thesis by (simp add: update_progress_def)
next
  case (Some goal)
  define g3 where "g3 = recompute_progress goal p cs now"
  define g4 where "g4 = g3\<lparr>g_status := ''completed'', g_completed_at := Some now\<rparr>"
  define g5 where "g5 = g4\<lparr>g_updated_at := Some now\<rparr>"
  define g6 where "g6 = g3\<lparr>g_updated_at := Some now\<rparr>"
  from Some have "g_id goal = i" using get_goal_Some by blast
  then have ids: "g_id g4 = i" "g_id g6 = i"
    by (simp_all add: g3_def g4_def g6_def)
  have m4: "completed_ids (modify_goal st i (\<lambda>g. g4)) = completed_ids st"
    using ids by (intro modify_goal_completed_ids) simp
  have m6: "completed_ids (modify_goal st i (\<lambda>g. g6)) = completed_ids st"
    using ids by (intro modify_goal_completed_ids) simp
  have "snd (update_progress st i p cs now) = st
        \<or> snd (update_progress st i p cs now) = modify_goal st i (\<lambda>g. g6)
        \<or> snd (update_progress st i p cs now) = modify_goal st i (\<lambda>g. g4)
        \<or> snd (update_progress st i p cs now) =
            (modify_goal st i (\<lambda>g. g4))
              \<lparr>goals := remove1 g4 (goals (modify_goal st i (\<lambda>g. g4))),
               completed_goals := completed_goals (modify_goal st i (\<lambda>g. g4)) @ [g5]\<rparr>"
    using Some
    by (simp add: update_progress_def Let_def g3_def [symmetric] g4_def [symmetric]
        g5_def [symmetric] g6_def [symmetric])
  moreover have "completed_ids st \<subseteq> completed_ids
            ((modify_goal st i (\<lambda>g. g4))
              \<lparr>goals := remove1 g4 (goals (modify_goal st i (\<lambda>g. g4))),
               completed_goals := completed_goals (modify_goal st i (\<lambda>g. g4)) @ [g5]\<rparr>)"
    using m4 by (auto simp: completed_ids_def)
  ultimately show ?thesis using m4 m6 by auto
qed

lemma apply_goal_op_completed_ids:
  "completed_ids st \<subseteq> completed_ids (apply_goal_op st c)"
proof (cases c)
  case (Pair now op)
  show ?thesis
    unfolding Pair
  proof (cases op)
    case (SetGoal d ty p dl)
    then show "completed_ids st \<subseteq> completed_ids (apply_goal_op st (now, op))"
      by (simp add: set_goal_def Let_def completed_ids_def)
  qed (simp_all add: decompose_goal_completed_ids update_progress_completed_ids
      add_dependency_completed_ids next_task_loop_completed_ids get_next_task_def
      review_goals_completed_ids)
qed

lemma run_goal_ops_invariant:
  "well_formed st \<Longrightarrow> fresh_ids st calls \<Longrightarrow>
   well_formed (run_goal_ops st calls) \<and> completed_ids st \<subseteq> completed_ids (run_goal_ops st calls)"
proof (induction calls arbitrary: st)
  case Nil
  then show ?case by (simp add: run_goal_ops_def)
next
  case (Cons c calls)
  obtain now op where c: "c = (now, op)" by (cases c)
  have wf: "well_formed (apply_goal_op st c)"
  proof (cases op)
    case (SetGoal d ty p dl)
    with Cons.prems c show ?thesis by (simp add: set_goal_well_formed)
  next
    case (DecomposeGoal i)
    with Cons.prems c show ?thesis by (simp add: decompose_goal_well_formed)
  next
    case (UpdateProgress i p cs)
    with Cons.prems c show ?thesis by (simp add: update_progress_well_formed)
  next
    case (AddDependency a b)
    with Cons.prems c show ?thesis by (simp add: add_dependency_well_formed)
  next
    case GetNextTask
    with Cons.prems c show ?thesis by (simp add: get_next_task_def next_task_loop_well_formed)
  next
    case ReviewGoals
    with Cons.prems c show ?thesis by (simp add: review_goals_well_formed)
  qed
  have fr: "fresh_ids (apply_goal_op st c) calls"
    using Cons.prems(2) c by (cases op) simp_all
  from Cons.IH [OF wf fr] apply_goal_op_completed_ids [of st c]
  show ?case by (auto simp: run_goal_ops_def)
qed

lemma distinct_count_list: "distinct xs \<Longrightarrow> x \<in> set xs \<Longrightarrow> count_list xs x = 1"
  by (induction xs) (auto simp: count_list_0_iff)

text \<open>
  With fresh ids the guard holds. Let the store be well formed and let \<open>gid\<close> resolve to a
  goal whose status is \<open>completed\<close>. Then, after any sequence of operations with fresh ids,
  every call of \<open>update_progress\<close> for \<open>gid\<close> returns the error result
  \<open>Goal already completed\<close> and the store as it was; the id occurs exactly once in the
  completed list and not in the active list, before and after the sequence.
\<close>

theorem completed_goal_stays_completed:
  assumes "well_formed st" and "get_goal st gid = Some goal" and "g_status goal = ''completed''"
    and "fresh_ids st calls"
  shows "update_progress (run_goal_ops st calls) gid progress completed_subtasks now =
           (Inr (UpdateError ''Goal already completed''), run_goal_ops st calls)
         \<and> count_list (map g_id (completed_goals (run_goal_ops st calls))) gid = 1
         \<and> gid \<notin> g_id ` set (goals (run_goal_ops st calls))
         \<and> count_list (map g_id (completed_goals st)) gid = 1
         \<and> gid \<notin> g_id ` set (goals st)"
proof -
  let ?st' = "run_goal_ops st calls"
  from assms(1-3) have c: "gid \<in> completed_ids st"
    unfolding completed_ids_def by (rule completed_goal_found)
  from run_goal_ops_invariant [OF assms(1) assms(4)] c
  have wf': "well_formed ?st'" and c': "gid \<in> completed_ids ?st'" by auto
  have facts: "count_list (map g_id (completed_goals s)) gid = 1 \<and> gid \<notin> g_id ` set (goals s)"
    if wf: "well_formed s" and cs: "gid \<in> completed_ids s" for s
  proof -
    from wf have "distinct (map g_id (completed_goals s))" by (simp add: well_formed_def)
    moreover from cs have "gid \<in> set (map g_id (completed_goals s))"
      by (simp add: completed_ids_def)
    ultimately have "count_list (map g_id (completed_goals s)) gid = 1"
      by (rule distinct_count_list)
    moreover from wf cs have "gid \<notin> g_id ` set (goals s)"
      unfolding completed_ids_def by (rule wf_disjoint)
    ultimately show ?thesis by simp
  qed
  from wf' c' obtain g where "get_goal ?st' gid = Some g" "g_status g = ''completed''"
    unfolding completed_ids_def using get_goal_completed by blast
  then have "update_progress ?st' gid progress completed_subtasks now =
               (Inr (UpdateError ''Goal already completed''), ?st')"
    by (simp add: update_progress_def)
  with facts [OF wf' c'] facts [OF assms(1) c] show ?thesis by simp
qed

lemma init_well_formed: "well_formed (init_goal_system t0)"
  by (simp add: well_formed_def init_goal_system_def)

lemma goal_id_200: "str_int (py_int 200) = ''200''"
  by (simp add: str_int_def py_int_def decimal.simps digit_char_def)

lemma completed_store_value:
  "completed_store =
     (init_goal_system 0)\<lparr>completed_goals :=
        [\<lparr>g_id = ''goal_100_0'', g_description = ''learn Isabelle'',
          g_type = ''skill_development'', g_priority = 3, g_status = ''completed'',
          g_progress = 100, g_created_at = 100, g_deadline = None, g_subtasks = [],
          g_dependencies = [], g_review_count = 0, g_last_reviewed = None,
          g_completed_at = Some 101, g_updated_at = Some 101\<rparr>]\<rparr>"
  by (simp add: completed_store_def run_goal_ops_def set_goal_def new_goal_id_def goal_id_100
      goal_types_def init_goal_system_def update_progress_def get_goal_def recompute_progress_def
      mark_subtasks_def modify_goal_def Let_def)

theorem completed_goal_stays_completed_witness:
  "well_formed completed_store
   \<and> map g_status (completed_goals completed_store) = [''completed'']
   \<and> fresh_ids completed_store later_calls
   \<and> update_progress (run_goal_ops completed_store later_calls) ''goal_100_0'' 40 [] 300 =
       (Inr (UpdateError ''Goal already completed''), run_goal_ops completed_store later_calls)
   \<and> count_list (map g_id (completed_goals (run_goal_ops completed_store later_calls)))
        ''goal_100_0'' = 1
   \<and> ''goal_100_0'' \<notin> g_id ` set (goals (run_goal_ops completed_store later_calls))"
proof -
  have wf: "well_formed completed_store"
    by (simp add: completed_store_value well_formed_def init_goal_system_def)
  have g: "get_goal completed_store ''goal_100_0'' = Some (hd (completed_goals completed_store))"
    by (simp add: completed_store_value get_goal_def init_goal_system_def)
  have s: "g_status (hd (completed_goals completed_store)) = ''completed''"
    by (simp add: completed_store_value)
  have fr: "fresh_ids completed_store later_calls"
    by (simp add: later_calls_def completed_store_value update_progress_def get_goal_def
        init_goal_system_def new_goal_id_def goal_id_200 goal_id_100 stored_ids_def)
  have m: "map g_status (completed_goals completed_store) = [''completed'']"
    by (simp add: completed_store_value)
  from completed_goal_stays_completed [OF wf g s fr, of 40 "[]" 300] wf fr m
  show ?thesis by simp
qed

subsection \<open>A completed id built again\<close>

lemma same_second: "str_int (py_int 100.5) = ''100''" "str_int (py_int (201 / 2)) = ''100''"
  by (simp_all add: str_int_def py_int_def decimal.simps digit_char_def)

lemma reused_id_store_value:
  "reused_id_store =
     (init_goal_system 0)\<lparr>
        goals :=
          [\<lparr>g_id = ''goal_100_0'', g_description = ''write proofs'', g_type = ''creation'',
            g_priority = 2, g_status = ''active'', g_progress = 0, g_created_at = 100.5,
            g_deadline = None, g_subtasks = [], g_dependencies = [], g_review_count = 0,
            g_last_reviewed = None, g_completed_at = None, g_updated_at = None\<rparr>],
        completed_goals :=
          [\<lparr>g_id = ''goal_100_0'', g_description = ''learn Isabelle'',
            g_type = ''skill_development'', g_priority = 3, g_status = ''completed'',
            g_progress = 100, g_created_at = 100, g_deadline = None, g_subtasks = [],
            g_dependencies = [], g_review_count = 0, g_last_reviewed = None,
            g_completed_at = Some 100.25, g_updated_at = Some 100.25\<rparr>]\<rparr>"
  by (simp add: reused_id_store_def run_goal_ops_def set_goal_def new_goal_id_def goal_id_100
      same_second goal_types_def init_goal_system_def update_progress_def get_goal_def
      recompute_progress_def mark_subtasks_def modify_goal_def Let_def)

text \<open>
  Claim C4, evaluated on the code. A goal is created at second 100 and completed; a second
  \<^verbatim>\<open>set_goal\<close> in the same second, with the active list empty again, builds the same id
  \<open>goal_100_0\<close>. The id is then in the completed list (status \<open>completed\<close>) and in the
  active list; \<open>update_progress\<close> for it is not rejected but returns success and changes
  the store, and completing the second goal puts the id into the completed list twice.
\<close>

theorem completed_id_accepts_update:
  "map g_id (completed_goals reused_id_store) = [''goal_100_0'']
   \<and> map g_status (completed_goals reused_id_store) = [''completed'']
   \<and> map g_id (goals reused_id_store) = [''goal_100_0'']
   \<and> fst (update_progress reused_id_store ''goal_100_0'' 40 [] 100.75)
       = Inr (UpdateSuccess ''goal_100_0'' 0 40 False)
   \<and> snd (update_progress reused_id_store ''goal_100_0'' 40 [] 100.75) \<noteq> reused_id_store
   \<and> map g_id (completed_goals
         (snd (update_progress reused_id_store ''goal_100_0'' 100 [] 100.75)))
       = [''goal_100_0'', ''goal_100_0'']"
  by (simp add: reused_id_store_value update_progress_def get_goal_def recompute_progress_def
      mark_subtasks_def modify_goal_def Let_def init_goal_system_def)

end
